theory Spec2Isabelle
  imports Complex_Main
begin

section \<open>JavaScript values used by the plugin\<close>

text \<open>
  A JavaScript \<open>number\<close> is a finite value, \<open>NaN\<close> or one of the two infinities.
  Finite values are kept as exact rationals: the plugin only compares numbers, tests them
  for truthiness and hands them to \<open>JSON.stringify\<close>; the first two are exact on
  doubles, and the third is described with \<open>json_of_number\<close> below. The one arithmetic
  step of the source, the loop counter's \<open>attempt++\<close>, is carried by a natural number (it
  starts at 1 and grows by 1, exact for every counter below \<open>2^53\<close>).
\<close>

datatype number = Fin rat | NaN | PosInf | NegInf

text \<open>The relational operators \<open>a < b\<close> and \<open>a <= b\<close>; every comparison with \<open>NaN\<close> is false.\<close>

fun js_lt :: "number \<Rightarrow> number \<Rightarrow> bool" where
  "js_lt NaN b = False"
| "js_lt a NaN = False"
| "js_lt (Fin a) (Fin b) = (a < b)"
| "js_lt (Fin a) PosInf = True"
| "js_lt (Fin a) NegInf = False"
| "js_lt PosInf b = False"
| "js_lt NegInf NegInf = False"
| "js_lt NegInf b = True"

definition js_le :: "number \<Rightarrow> number \<Rightarrow> bool" where
  "js_le a b = (a \<noteq> NaN \<and> b \<noteq> NaN \<and> \<not> js_lt b a)"

text \<open>Truthiness, as used by \<open>!x\<close> and \<open>x || y\<close>.\<close>

fun truthy_number :: "number \<Rightarrow> bool" where
  "truthy_number (Fin r) = (r \<noteq> 0)"
| "truthy_number NaN = False"
| "truthy_number PosInf = True"
| "truthy_number NegInf = True"

definition truthy_string :: "string \<Rightarrow> bool" where
  "truthy_string s = (s \<noteq> [])"

text \<open>
  A variable typed \<open>number\<close> can hold \<open>undefined\<close> at run time: an optional argument left
  out, or a configuration key that the caller set to \<open>undefined\<close>. Such a variable is a
  \<open>number option\<close>, \<open>None\<close> being \<open>undefined\<close>. A comparison converts its operand with
  \<open>ToNumber\<close>, which takes \<open>undefined\<close> to \<open>NaN\<close>; \<open>x || d\<close> yields \<open>d\<close> when \<open>x\<close> is falsy,
  as \<open>undefined\<close> is.
\<close>

fun ToNumber :: "number option \<Rightarrow> number" where
  "ToNumber None = NaN"
| "ToNumber (Some n) = n"

fun js_or :: "number option \<Rightarrow> number option \<Rightarrow> number option" where
  "js_or None d = d"
| "js_or (Some n) d = (if truthy_number n then Some n else d)"

text \<open>
  \<open>Number(b)\<close> for a bigint \<open>b\<close>: the nearest double, ties to even, and an infinity
  beyond the largest double. Only integers are involved, so the rounding is integer arithmetic:
  a magnitude of more than 53 bits keeps its leading 53 bits, rounded on the bits dropped.
\<close>

fun bit_length :: "nat \<Rightarrow> nat" where
  "bit_length n = (if n = 0 then 0 else Suc (bit_length (n div 2)))"

declare bit_length.simps [simp del]

definition round_to_53_bits :: "nat \<Rightarrow> nat" where
  "round_to_53_bits a =
     (let e = bit_length a - 53;
          q = a div 2 ^ e;
          r = a mod 2 ^ e;
          h = 2 ^ e div 2;
          q' = (if h < r \<or> (e \<noteq> 0 \<and> r = h \<and> odd q) then q + 1 else q)
      in q' * 2 ^ e)"

definition Number_of_bigint :: "int \<Rightarrow> number" where
  "Number_of_bigint b =
     (let v = round_to_53_bits (nat \<bar>b\<bar>)
      in if 2 ^ 1024 \<le> v then (if b < 0 then NegInf else PosInf)
         else Fin (of_int (sgn b * int v)))"

text \<open>A block number is supplied as \<open>number | bigint\<close>.\<close>

datatype block_number = Plain number | BigInt int

text \<open>
  JSON values, as parsed from a response and as produced by \<open>JSON.stringify\<close>.
  \<open>JNumber r\<close> is the number whose decimal value is \<open>r\<close>. \<open>JDouble r\<close> is what
  \<open>JSON.stringify\<close> writes for a finite double \<open>r\<close> in general: the shortest decimal that
  reads back as \<open>r\<close>, which need not have the value \<open>r\<close> (the double \<open>18014398509481992\<close> is
  written \<open>18014398509481990\<close>). The digits of a \<open>JDouble\<close> are not modelled; it is
  identified by the double it stands for.
\<close>

datatype json =
    JNull
  | JBool bool
  | JNumber rat
  | JDouble rat
  | JString string
  | JArray "json list"
  | JObject "(string \<times> json) list"

fun truthy_json :: "json \<Rightarrow> bool" where
  "truthy_json JNull = False"
| "truthy_json (JBool b) = b"
| "truthy_json (JNumber r) = (r \<noteq> 0)"
| "truthy_json (JDouble r) = (r \<noteq> 0)"
| "truthy_json (JString s) = (s \<noteq> [])"
| "truthy_json (JArray xs) = True"
| "truthy_json (JObject kvs) = True"

text \<open>
  \<open>JSON.stringify\<close> on an array element. \<open>NaN\<close>, the infinities and \<open>undefined\<close> are
  written \<open>null\<close>. A finite number is written as its shortest decimal that reads back as
  the same double; for a safe integer (an integer of magnitude below \<open>2^53\<close>) that decimal
  is the integer itself.
\<close>

definition safe_integer :: "rat \<Rightarrow> bool" where
  "safe_integer r = (r = of_int \<lfloor>r\<rfloor> \<and> \<bar>r\<bar> < 2 ^ 53)"

fun json_of_number :: "number \<Rightarrow> json" where
  "json_of_number (Fin r) = (if safe_integer r then JNumber r else JDouble r)"
| "json_of_number NaN = JNull"
| "json_of_number PosInf = JNull"
| "json_of_number NegInf = JNull"

fun json_of_param :: "number option \<Rightarrow> json" where
  "json_of_param None = JNull"
| "json_of_param (Some n) = json_of_number n"

section \<open>The plugin's types (src/types/index.ts)\<close>

text \<open>
  \<open>PolymerConfig\<close> as the caller writes it: every field but the key is optional. An
  optional key of an object literal is left out, or it is there; and when it is there its
  value may still be \<open>undefined\<close> (\<open>Present None\<close>), which the object spread copies like
  any other value. The API key is required by the type, so it is a string here; a caller
  who leaves it out fails the test of \<open>polymer\<close> as one who passes the empty string does.
\<close>

datatype 'a property = Absent | Present "'a option"

record PolymerConfig =
  apiUrl_cfg :: "string property"
  apiKey_cfg :: string
  maxAttempts_cfg :: "number property"
  interval_cfg :: "number property"
  timeout_cfg :: "number property"
  debug_cfg :: "bool property"

text \<open>
  \<open>Required<PolymerConfig>\<close>: the configuration after the defaults are merged in. The type
  promises a value for every key, but the merge can leave \<open>undefined\<close> (\<open>None\<close>) in a key
  that the caller set to \<open>undefined\<close>.
\<close>

record RequiredPolymerConfig =
  apiUrl :: "string option"
  apiKey :: string
  maxAttempts :: "number option"
  interval :: "number option"
  timeout :: "number option"
  debug :: "bool option"

text \<open>Of a viem log only \<open>topics\<close> is read; of a receipt the four fields below.\<close>

record Log =
  topics :: "string list"

record TransactionReceipt =
  blockNumber :: int
  transactionIndex :: number
  transactionHash :: string
  logs :: "Log list"

text \<open>
  \<open>PolymerProofOptions\<close>. The receipt is required by its type, but the code tests it,
  so the model lets it be absent.
\<close>

record PolymerProofOptions =
  receipt :: "TransactionReceipt option"
  eventSignature :: "string option"
  logIndex :: "number option"
  maxAttempts_opt :: "number option"
  interval_opt :: "number option"
  returnJob :: "bool option"

record ProofRequestParams =
  srcChainId :: number
  srcBlockNumber :: block_number
  txIndex :: number
  logIndex_param :: number

datatype job_state = Pending | Generating | Complete | Error

text \<open>\<open>ProofJobStatus\<close>; \<open>extra\<close> holds the additional fields the API may return.\<close>

record ProofJobStatus =
  status :: job_state
  proof_data :: "string option"
  failureReason :: "string option"
  extra :: "(string \<times> json) list"

record ProofJobResponse =
  jobId :: string
  receipt_of_job :: "TransactionReceipt option"

datatype proof_result = Status ProofJobStatus | Job ProofJobResponse

text \<open>The viem client: only \<open>client.chain?.id\<close> is read.\<close>

record Chain =
  chain_id :: number

record PublicClient =
  chain :: "Chain option"

section \<open>Errors\<close>

text \<open>
  The source throws \<open>Error\<close> objects that differ in their message only. Each throw site
  is one constructor, carrying the values its message interpolates:
  \<^item> \<open>ApiKeyRequired\<close>: "Polymer API key is required";
  \<^item> \<open>ReceiptRequired\<close>: "Transaction receipt is required";
  \<^item> \<open>ChainIdNotFound\<close>: "Chain ID not found in client";
  \<^item> \<open>SelectorRequired\<close>: "eventSignature or logIndex is required";
  \<^item> \<open>NegativeLogIndex\<close>: "logIndex must be non-negative";
  \<^item> \<open>EventNotFound s\<close>: "Event s not found in transaction receipt";
  \<^item> \<open>JobIdRequired\<close>: "Job ID is required";
  \<^item> \<open>HttpError st\<close>: "HTTP error! status: st";
  \<^item> \<open>PolymerApiError e\<close>: "Polymer API error: " followed by the stringified \<open>e\<close>;
  \<^item> \<open>ProofGenerationFailed r\<close>: "Proof generation failed: r";
  \<^item> \<open>ProofGenerationTimedOut n\<close>: "Proof generation timed out after n attempts";
  \<^item> \<open>Thrown x\<close>: an exception of \<open>fetch\<close> or \<open>response.json()\<close>, passed on as it is.
\<close>

datatype error =
    ApiKeyRequired
  | ReceiptRequired
  | ChainIdNotFound
  | SelectorRequired
  | NegativeLogIndex
  | EventNotFound string
  | JobIdRequired
  | HttpError nat
  | PolymerApiError json
  | ProofGenerationFailed string
  | ProofGenerationTimedOut "number option"
  | Thrown string

section \<open>The outside world: console, timer and proving service\<close>

text \<open>What is handed to \<open>console.log\<close> and \<open>console.error\<close>.\<close>

datatype logv =
    LStr string
  | LNum number
  | LBig int
  | LUndefined
  | LBool bool
  | LJson json
  | LErr error
  | LList "logv list"
  | LTemplate "logv list"
  | LObj "(string \<times> logv) list"

text \<open>\<open>LTemplate\<close> is a template literal, given by its parts in order.\<close>

fun lnum :: "number option \<Rightarrow> logv" where
  "lnum None = LUndefined"
| "lnum (Some n) = LNum n"

record rpc_request =
  jsonrpc :: string
  rpc_id :: nat
  rpc_method :: string
  params :: "json list"

text \<open>
  Everything the plugin does to the outside, in the order it happens: an HTTP POST
  (URL, \<open>Authorization\<close> header, body), a \<open>setTimeout\<close> delay the code awaits, and
  console output.
\<close>

datatype event =
    Fetch "string option" string rpc_request
  | SetTimeout "number option"
  | ConsoleLog "logv list"
  | ConsoleError "logv list"

text \<open>
  What one POST yields: \<open>fetch\<close> rejects, or there is a response with a status code and
  a body; \<open>response.json()\<close> rejects on the body, or gives the JSON-RPC envelope with its
  \<open>error\<close> member (if present) and its \<open>result\<close>, typed as the source's type assertion
  takes it.
\<close>

datatype 'r response_body = Malformed string | Envelope "json option" 'r

datatype 'r http_reply = NetworkError string | Response nat "'r response_body"

definition response_ok :: "nat \<Rightarrow> bool" where
  "response_ok st = (200 \<le> st \<and> st \<le> 299)"

text \<open>
  The proving service: how it answers the POST that follows \<open>n\<close> earlier ones, for each
  of the two methods.
\<close>

record service =
  requestProof_reply :: "nat \<Rightarrow> string http_reply"
  queryProof_reply :: "nat \<Rightarrow> ProofJobStatus http_reply"

fun is_fetch :: "event \<Rightarrow> bool" where
  "is_fetch (Fetch u a b) = True"
| "is_fetch e = False"

definition round_trips :: "event list \<Rightarrow> nat" where
  "round_trips tr = length (filter is_fetch tr)"

section \<open>The plugin (src/index.ts)\<close>

definition DEFAULT_CONFIG :: RequiredPolymerConfig where
  "DEFAULT_CONFIG =
     \<lparr>apiUrl = Some ''https://proof.testnet.polymer.zone'',
      apiKey = '''',
      maxAttempts = Some (Fin 20),
      interval = Some (Fin 3000),
      timeout = Some (Fin 60000),
      debug = Some False\<rparr>"

text \<open>
  \<open>createLogger(enabled = false)\<close>: the default parameter turns an \<open>undefined\<close> argument
  into \<open>false\<close>, and both methods of the logger print only when it is enabled.
  \<open>logger_log d\<close> and \<open>logger_error d\<close> are the two methods of \<open>createLogger(d)\<close>.
\<close>

definition createLogger :: "bool option \<Rightarrow> bool" where
  "createLogger d = (case d of None \<Rightarrow> False | Some enabled \<Rightarrow> enabled)"

definition logger_log :: "bool option \<Rightarrow> logv list \<Rightarrow> event list \<Rightarrow> event list" where
  "logger_log d args tr =
     (if createLogger d then tr @ [ConsoleLog (LStr ''[Polymer Viem]'' # args)] else tr)"

definition logger_error :: "bool option \<Rightarrow> logv list \<Rightarrow> event list \<Rightarrow> event list" where
  "logger_error d args tr =
     (if createLogger d then tr @ [ConsoleError (LStr ''[Polymer Viem]'' # args)] else tr)"

text \<open>\<open>toBytes\<close>: a string is held as its UTF-8 bytes, so the encoder changes nothing.\<close>

definition toBytes :: "string \<Rightarrow> string" where
  "toBytes str = str"

text \<open>\<open>Array.prototype.findIndex\<close>: the first position that satisfies \<open>p\<close>, or \<open>-1\<close>.\<close>

fun findIndex :: "('a \<Rightarrow> bool) \<Rightarrow> 'a list \<Rightarrow> int" where
  "findIndex p [] = - 1"
| "findIndex p (x # xs) =
     (if p x then 0
      else (let i = findIndex p xs in if i = - 1 then - 1 else i + 1))"

text \<open>\<open>log.topics[0]\<close>, which is \<open>undefined\<close> on a log without topics.\<close>

definition leading_topic :: "Log \<Rightarrow> string option" where
  "leading_topic l = (case topics l of [] \<Rightarrow> None | t # ts \<Rightarrow> Some t)"

text \<open>
  Lines 104 to 130 of \<open>polymerProof\<close>, which compute the variable \<open>localLogIndex\<close>
  from the receipt and the two selectors, or throw. The result is typed
  \<open>number | undefined\<close> as the variable is.
\<close>

definition localLogIndex ::
  "(string \<Rightarrow> string) \<Rightarrow> TransactionReceipt \<Rightarrow> string option \<Rightarrow> number option
     \<Rightarrow> error + number option" where
  "localLogIndex viemKeccak256 rc sig providedLogIndex =
     (if \<not> (case sig of None \<Rightarrow> False | Some s \<Rightarrow> truthy_string s) \<and> providedLogIndex = None
      then Inl SelectorRequired
      else if (case providedLogIndex of None \<Rightarrow> False | Some n \<Rightarrow> js_lt n (Fin 0))
      then Inl NegativeLogIndex
      else (case (providedLogIndex, sig) of
              (None, Some s) \<Rightarrow>
                (if truthy_string s then
                   (let eventTopic = viemKeccak256 (toBytes s);
                        foundIndex = findIndex (\<lambda>l. leading_topic l = Some eventTopic) (logs rc)
                    in if foundIndex = - 1 then Inl (EventNotFound s)
                       else Inr (Some (Fin (of_int foundIndex))))
                 else Inr providedLogIndex)
            | (p, s) \<Rightarrow> Inr providedLogIndex))"

text \<open>
  The round trip that \<open>requestProof\<close> and \<open>queryProofStatus\<close> both spell out inside
  their \<open>try\<close> block: the POST, the status test, the parse and the test of the envelope's
  \<open>error\<close> member. \<open>reply\<close> is the service's answer to this POST.
\<close>

definition post_rpc ::
  "RequiredPolymerConfig \<Rightarrow> string \<Rightarrow> json list \<Rightarrow> 'r http_reply \<Rightarrow> event list
     \<Rightarrow> (error + 'r) \<times> event list" where
  "post_rpc config m ps reply tr =
     (let tr1 = tr @ [Fetch (apiUrl config) (''Bearer '' @ apiKey config)
                        \<lparr>jsonrpc = ''2.0'', rpc_id = 1, rpc_method = m, params = ps\<rparr>]
      in case reply of
           NetworkError x \<Rightarrow> (Inl (Thrown x), tr1)
         | Response st body \<Rightarrow>
             (if \<not> response_ok st then (Inl (HttpError st), tr1)
              else (case body of
                      Malformed x \<Rightarrow> (Inl (Thrown x), tr1)
                    | Envelope err res \<Rightarrow>
                        (case err of
                           None \<Rightarrow> (Inr res, tr1)
                         | Some e \<Rightarrow>
                             (if truthy_json e then (Inl (PolymerApiError e), tr1)
                              else (Inr res, tr1))))))"

text \<open>
  \<open>requestProof\<close>. Its last parameter is typed \<open>number\<close>, but \<open>polymerProof\<close> passes
  a \<open>number | undefined\<close> variable under a non-null assertion, which checks nothing at
  run time; so the parameter is optional here.
\<close>

definition requestProof ::
  "service \<Rightarrow> RequiredPolymerConfig \<Rightarrow> number \<Rightarrow> block_number \<Rightarrow> number \<Rightarrow> number option
     \<Rightarrow> event list \<Rightarrow> (error + string) \<times> event list" where
  "requestProof srv config cid bn txi lli tr =
     (let ps = [Some cid,
                Some (case bn of BigInt b \<Rightarrow> Number_of_bigint b | Plain n \<Rightarrow> n),
                Some txi,
                lli];
          tr1 = logger_log (debug config)
                  [LStr ''Requesting proof with params:'',
                   LList (map lnum ps)] tr;
          r = post_rpc config ''log_requestProof'' (map json_of_param ps)
                (requestProof_reply srv (round_trips tr1)) tr1
      in case fst r of
           Inl e \<Rightarrow>
             (Inl e, logger_error (debug config) [LStr ''Error requesting proof:'', LErr e] (snd r))
         | Inr res \<Rightarrow> (Inr res, snd r))"

definition queryProofStatus ::
  "service \<Rightarrow> RequiredPolymerConfig \<Rightarrow> string \<Rightarrow> event list
     \<Rightarrow> (error + ProofJobStatus) \<times> event list" where
  "queryProofStatus srv config jid tr =
     (let tr1 = logger_log (debug config) [LStr ''Querying proof status for job:'', LStr jid] tr;
          r = post_rpc config ''log_queryProof'' [JString jid]
                (queryProof_reply srv (round_trips tr1)) tr1
      in case fst r of
           Inl e \<Rightarrow>
             (Inl e,
              logger_error (debug config) [LStr ''Error querying proof status:'', LErr e] (snd r))
         | Inr res \<Rightarrow> (Inr res, snd r))"

text \<open>
  The \<open>for\<close> loop of \<open>wait\<close>, entered with the counter at \<open>attempt\<close>, together with the
  \<open>throw\<close> that follows the loop. With \<open>maxA\<close> infinite and a job that never reaches a
  terminal state the loop runs forever: not returning is the value \<open>None\<close>. The two
  numeric parameters come from the options and the merged configuration, so they can be
  \<open>undefined\<close>.
\<close>

partial_function (option) wait_loop ::
  "service \<Rightarrow> RequiredPolymerConfig \<Rightarrow> string \<Rightarrow> number option \<Rightarrow> number option \<Rightarrow> nat
     \<Rightarrow> event list \<Rightarrow> ((error + ProofJobStatus) \<times> event list) option" where
  "wait_loop srv config jid maxA ival attempt tr =
     (if js_le (Fin (of_nat attempt)) (ToNumber maxA) then
        (case queryProofStatus srv config jid
                (logger_log (debug config)
                   [LTemplate [LStr ''Polling attempt '', LNum (Fin (of_nat attempt)),
                               LStr ''/'', lnum maxA]] tr) of
           (Inl e, tr1) \<Rightarrow> Some (Inl e, tr1)
         | (Inr res, tr1) \<Rightarrow>
             (if status res = Complete then
                Some (Inr res, logger_log (debug config) [LStr ''Proof generation complete!''] tr1)
              else if status res = Error then
                Some (Inl (ProofGenerationFailed
                             (case failureReason res of
                                None \<Rightarrow> ''Unknown error''
                              | Some reason \<Rightarrow>
                                  if truthy_string reason then reason else ''Unknown error'')),
                      tr1)
              else wait_loop srv config jid maxA ival (Suc attempt)
                     (if js_lt (Fin (of_nat attempt)) (ToNumber maxA) then
                        logger_log (debug config)
                          [LTemplate [LStr ''Waiting '', lnum ival,
                                      LStr ''ms before next attempt...'']] tr1
                        @ [SetTimeout ival]
                      else tr1)))
      else Some (Inl (ProofGenerationTimedOut maxA), tr))"

declare wait_loop.simps [code]

definition wait ::
  "service \<Rightarrow> RequiredPolymerConfig \<Rightarrow> string \<Rightarrow> number option \<Rightarrow> number option
     \<Rightarrow> event list \<Rightarrow> ((error + ProofJobStatus) \<times> event list) option" where
  "wait srv config jid maxA ival tr =
     wait_loop srv config jid maxA ival 1
       (logger_log (debug config)
          [LTemplate [LStr ''Polling for proof completion (max '', lnum maxA,
                      LStr '' attempts, interval '', lnum ival, LStr ''ms)'']] tr)"

text \<open>
  One key of the object spread \<open>{ ...DEFAULT_CONFIG, ...config }\<close>: the default stands
  unless the caller's object has the key, whose value then replaces it, \<open>undefined\<close>
  included.
\<close>

definition spread :: "'a option \<Rightarrow> 'a property \<Rightarrow> 'a option" where
  "spread d p = (case p of Absent \<Rightarrow> d | Present v \<Rightarrow> v)"

text \<open>
  \<open>polymer(config)(client)\<close>: the defaults are merged under the caller's configuration, a
  missing key is refused, and the methods below close over the merged configuration,
  which is what the model returns.
\<close>

definition merge_config :: "PolymerConfig \<Rightarrow> RequiredPolymerConfig" where
  "merge_config config =
     \<lparr>apiUrl = spread (apiUrl DEFAULT_CONFIG) (apiUrl_cfg config),
      apiKey = apiKey_cfg config,
      maxAttempts = spread (maxAttempts DEFAULT_CONFIG) (maxAttempts_cfg config),
      interval = spread (interval DEFAULT_CONFIG) (interval_cfg config),
      timeout = spread (timeout DEFAULT_CONFIG) (timeout_cfg config),
      debug = spread (debug DEFAULT_CONFIG) (debug_cfg config)\<rparr>"

definition log_of_config :: "RequiredPolymerConfig \<Rightarrow> logv" where
  "log_of_config c =
     LObj [(''apiUrl'', (case apiUrl c of None \<Rightarrow> LUndefined | Some u \<Rightarrow> LStr u)),
           (''apiKey'', LStr (apiKey c)),
           (''maxAttempts'', lnum (maxAttempts c)), (''interval'', lnum (interval c)),
           (''timeout'', lnum (timeout c)),
           (''debug'', (case debug c of None \<Rightarrow> LUndefined | Some b \<Rightarrow> LBool b))]"

definition polymer ::
  "PolymerConfig \<Rightarrow> event list \<Rightarrow> (error + RequiredPolymerConfig) \<times> event list" where
  "polymer config tr =
     (let polymerConfig = merge_config config
      in if \<not> truthy_string (apiKey polymerConfig) then (Inl ApiKeyRequired, tr)
         else (Inr polymerConfig,
               logger_log (debug polymerConfig)
                 [LStr ''Initializing Polymer Viem plugin with config:'',
                  log_of_config polymerConfig] tr))"

text \<open>The method \<open>polymerProof\<close> of the extended client.\<close>

definition polymerProof ::
  "(string \<Rightarrow> string) \<Rightarrow> service \<Rightarrow> RequiredPolymerConfig \<Rightarrow> PublicClient
     \<Rightarrow> PolymerProofOptions \<Rightarrow> event list \<Rightarrow> ((error + proof_result) \<times> event list) option" where
  "polymerProof viemKeccak256 srv polymerConfig client options tr =
     (case receipt options of
        None \<Rightarrow> Some (Inl ReceiptRequired, tr)
      | Some rc \<Rightarrow>
          (case (case chain client of None \<Rightarrow> None | Some c \<Rightarrow> Some (chain_id c)) of
             None \<Rightarrow> Some (Inl ChainIdNotFound, tr)
           | Some cid \<Rightarrow>
               (if \<not> truthy_number cid then Some (Inl ChainIdNotFound, tr)
                else
                  (let maxA = (case maxAttempts_opt options of
                                 None \<Rightarrow> maxAttempts polymerConfig | Some n \<Rightarrow> Some n);
                       ival = (case interval_opt options of
                                 None \<Rightarrow> interval polymerConfig | Some n \<Rightarrow> Some n);
                       rj = (case returnJob options of None \<Rightarrow> False | Some b \<Rightarrow> b)
                   in case localLogIndex viemKeccak256 rc (eventSignature options)
                             (logIndex options) of
                        Inl e \<Rightarrow> Some (Inl e, tr)
                      | Inr lli \<Rightarrow>
                          (case requestProof srv polymerConfig cid (BigInt (blockNumber rc))
                                  (transactionIndex rc) lli
                                  (logger_log (debug polymerConfig)
                                     [LStr ''Transaction receipt details:'',
                                      LObj [(''srcChainId'', LNum cid),
                                            (''srcBlockNumber'', LBig (blockNumber rc)),
                                            (''txIndex'', LNum (transactionIndex rc)),
                                            (''localLogIndex'', lnum lli),
                                            (''transactionHash'',
                                               LStr (transactionHash rc))]] tr) of
                             (Inl e, tr1) \<Rightarrow> Some (Inl e, tr1)
                           | (Inr jid, tr1) \<Rightarrow>
                               (if rj then
                                  Some (Inr (Job \<lparr>jobId = jid, receipt_of_job = Some rc\<rparr>),
                                        logger_log (debug polymerConfig)
                                          [LStr ''Proof job created with ID:'', LStr jid] tr1)
                                else
                                  map_option (map_prod (map_sum id Status) id)
                                    (wait srv polymerConfig jid maxA ival
                                       (logger_log (debug polymerConfig)
                                          [LStr ''Proof job created with ID:'', LStr jid]
                                          tr1))))))))"

text \<open>The three methods of \<open>client.polymer\<close>.\<close>

definition polymer_requestProof ::
  "service \<Rightarrow> RequiredPolymerConfig \<Rightarrow> ProofRequestParams \<Rightarrow> event list
     \<Rightarrow> (error + string) \<times> event list" where
  "polymer_requestProof srv polymerConfig ps tr =
     requestProof srv polymerConfig (srcChainId ps) (srcBlockNumber ps) (txIndex ps)
       (Some (logIndex_param ps)) tr"

definition polymer_queryProofStatus ::
  "service \<Rightarrow> RequiredPolymerConfig \<Rightarrow> string \<Rightarrow> event list
     \<Rightarrow> (error + ProofJobStatus) \<times> event list" where
  "polymer_queryProofStatus srv polymerConfig jid tr =
     (if \<not> truthy_string jid then (Inl JobIdRequired, tr)
      else queryProofStatus srv polymerConfig jid tr)"

definition polymer_wait ::
  "service \<Rightarrow> RequiredPolymerConfig \<Rightarrow> string \<Rightarrow> number option \<Rightarrow> number option
     \<Rightarrow> event list \<Rightarrow> ((error + ProofJobStatus) \<times> event list) option" where
  "polymer_wait srv polymerConfig jid maxA ival tr =
     (if \<not> truthy_string jid then Some (Inl JobIdRequired, tr)
      else wait srv polymerConfig jid (js_or maxA (maxAttempts polymerConfig))
             (js_or ival (interval polymerConfig)) tr)"

section \<open>Notions used to state the properties\<close>

text \<open>
  The plugin's effects on the service and the timer are what is left of a trace once the
  console output is taken out.
\<close>

fun is_console :: "event \<Rightarrow> bool" where
  "is_console (ConsoleLog args) = True"
| "is_console (ConsoleError args) = True"
| "is_console e = False"

definition without_console :: "event list \<Rightarrow> event list" where
  "without_console tr = filter (\<lambda>e. \<not> is_console e) tr"

text \<open>The POST made by \<open>queryProofStatus\<close> and the one made by \<open>requestProof\<close>.\<close>

definition query_post :: "RequiredPolymerConfig \<Rightarrow> string \<Rightarrow> event" where
  "query_post config jid =
     Fetch (apiUrl config) (''Bearer '' @ apiKey config)
       \<lparr>jsonrpc = ''2.0'', rpc_id = 1, rpc_method = ''log_queryProof'',
        params = [JString jid]\<rparr>"

definition request_post :: "RequiredPolymerConfig \<Rightarrow> json list \<Rightarrow> event" where
  "request_post config ps =
     Fetch (apiUrl config) (''Bearer '' @ apiKey config)
       \<lparr>jsonrpc = ''2.0'', rpc_id = 1, rpc_method = ''log_requestProof'', params = ps\<rparr>"

text \<open>
  The POST that \<open>polymerProof\<close> makes for a receipt \<open>rc\<close> on the chain \<open>c\<close> once
  the log position is \<open>lli\<close>: the four coordinates, in the order of the wire protocol.
\<close>

definition proof_request ::
  "RequiredPolymerConfig \<Rightarrow> Chain \<Rightarrow> TransactionReceipt \<Rightarrow> number option \<Rightarrow> event" where
  "proof_request config c rc lli =
     request_post config
       [json_of_number (chain_id c),
        json_of_number (Number_of_bigint (blockNumber rc)),
        json_of_number (transactionIndex rc),
        json_of_param lli]"

text \<open>
  A reply delivers a result when the response is a success, its body parses, and the
  envelope carries no truthy \<open>error\<close> member.
\<close>

fun delivered :: "'r http_reply \<Rightarrow> 'r option" where
  "delivered (NetworkError x) = None"
| "delivered (Response st (Malformed x)) = None"
| "delivered (Response st (Envelope err res)) =
     (if response_ok st \<and> (case err of None \<Rightarrow> True | Some e \<Rightarrow> \<not> truthy_json e)
      then Some res else None)"

text \<open>
  A status sequence: from its \<open>n\<close>-th round trip on, the service answers the status
  queries with the statuses of the list, in order.
\<close>

fun yields :: "service \<Rightarrow> nat \<Rightarrow> ProofJobStatus list \<Rightarrow> bool" where
  "yields srv n [] = True"
| "yields srv n (s # ss) =
     (delivered (queryProof_reply srv n) = Some s \<and> yields srv (Suc n) ss)"

definition in_progress :: "ProofJobStatus \<Rightarrow> bool" where
  "in_progress s = (status s = Pending \<or> status s = Generating)"

text \<open>What \<open>result.failureReason || "Unknown error"\<close> evaluates to.\<close>

definition reported_reason :: "ProofJobStatus \<Rightarrow> string" where
  "reported_reason res =
     (case failureReason res of
        None \<Rightarrow> ''Unknown error''
      | Some reason \<Rightarrow> if truthy_string reason then reason else ''Unknown error'')"

text \<open>
  What a call is observed to do when the console is not looked at: its outcome, and its
  effects on the service and the timer.
\<close>

definition observable :: "'a \<times> event list \<Rightarrow> 'a \<times> event list" where
  "observable r = (fst r, without_console (snd r))"

text \<open>
  What \<open>polymerProof\<close> is to be observed doing for a receipt \<open>rc\<close> on the chain \<open>c\<close>
  once the log position is \<open>lli\<close>, whether it returns or not. It posts the proof request
  for that position. If the request fails, so does the call. If the caller asked for the
  job only, the job is returned. Otherwise the call goes on as \<open>wait\<close> does for the job
  the service named, with the attempts and the interval of the options or, failing those,
  of the configuration.
\<close>

definition request_and_wait ::
  "service \<Rightarrow> RequiredPolymerConfig \<Rightarrow> Chain \<Rightarrow> TransactionReceipt \<Rightarrow> PolymerProofOptions
     \<Rightarrow> number option \<Rightarrow> event list \<Rightarrow> ((error + proof_result) \<times> event list) option" where
  "request_and_wait srv config c rc options lli tr =
     (let sent = without_console tr @ [proof_request config c rc lli]
      in case fst (requestProof srv config (chain_id c) (BigInt (blockNumber rc))
                     (transactionIndex rc) lli tr) of
           Inl e \<Rightarrow> Some (Inl e, sent)
         | Inr jid \<Rightarrow>
             if (case returnJob options of None \<Rightarrow> False | Some b \<Rightarrow> b)
             then Some (Inr (Job \<lparr>jobId = jid, receipt_of_job = Some rc\<rparr>), sent)
             else map_option (map_prod (map_sum id Status) id)
                    (map_option observable
                       (wait srv config jid
                          (case maxAttempts_opt options of
                             None \<Rightarrow> maxAttempts config | Some m \<Rightarrow> Some m)
                          (case interval_opt options of
                             None \<Rightarrow> interval config | Some i \<Rightarrow> Some i)
                          sent)))"

text \<open>
  The call is bound to return: it is asked for the job only, or the number of attempts it
  polls with is not \<open>2^53\<close> or more (the range in which the loop counter is exact; a
  number of attempts that is \<open>NaN\<close>, \<open>undefined\<close> or negative is in it).
\<close>

definition bounded :: "RequiredPolymerConfig \<Rightarrow> PolymerProofOptions \<Rightarrow> bool" where
  "bounded config options =
     ((case returnJob options of None \<Rightarrow> False | Some b \<Rightarrow> b)
      \<or> \<not> js_le (Fin (2 ^ 53))
             (ToNumber (case maxAttempts_opt options of
                          None \<Rightarrow> maxAttempts config | Some m \<Rightarrow> Some m)))"

text \<open>
  The finite values of the type \<open>number\<close> are the doubles: a significand of 53 bits,
  scaled by a power of two between \<open>2^-1074\<close> and \<open>2^971\<close>. A value of the type is
  such a double, \<open>NaN\<close> or an infinity.
\<close>

definition is_double :: "rat \<Rightarrow> bool" where
  "is_double r =
     (\<exists>m :: int. \<exists>e :: nat. \<bar>m\<bar> < 2 ^ 53 \<and> e \<le> 2045 \<and> r = of_int m * 2 ^ e / 2 ^ 1074)"

definition is_Number :: "number \<Rightarrow> bool" where
  "is_Number n = (case n of Fin r \<Rightarrow> is_double r | NaN \<Rightarrow> True | PosInf \<Rightarrow> True
                  | NegInf \<Rightarrow> True)"

section \<open>Sample inputs\<close>

text \<open>A service that answers from a script and refuses every later connection.\<close>

definition scripted :: "'a http_reply list \<Rightarrow> nat \<Rightarrow> 'a http_reply" where
  "scripted rs n = (if n < length rs then rs ! n else NetworkError ''connection refused'')"

definition job_status :: "job_state \<Rightarrow> ProofJobStatus" where
  "job_status s = \<lparr>status = s, proof_data = None, failureReason = None, extra = []\<rparr>"

definition success :: "'a \<Rightarrow> 'a http_reply" where
  "success res = Response 200 (Envelope None res)"

definition sample_config :: RequiredPolymerConfig where
  "sample_config = DEFAULT_CONFIG\<lparr>apiKey := ''key''\<rparr>"

text \<open>A job that is pending twice and then complete, and one that is pending and then fails.\<close>

definition completing_service :: service where
  "completing_service =
     \<lparr>requestProof_reply = scripted [success ''job-1''],
      queryProof_reply =
        scripted [success (job_status Pending), success (job_status Pending),
                  success (job_status Complete)]\<rparr>"

definition failing_service :: service where
  "failing_service =
     \<lparr>requestProof_reply = scripted [success ''job-1''],
      queryProof_reply =
        scripted [success (job_status Pending),
                  success ((job_status Error)\<lparr>failureReason := Some ''bad proof''\<rparr>)]\<rparr>"

definition pending_service :: service where
  "pending_service =
     \<lparr>requestProof_reply = scripted [success ''job-1''],
      queryProof_reply =
        scripted [success (job_status Pending), success (job_status Pending),
                  success (job_status Pending)]\<rparr>"

text \<open>
  A stand-in for the hash function, a receipt whose logs carry the topic of a transfer
  event at positions 2 and 3, a client on a chain, and options that ask for the job only.
\<close>

definition sample_hash :: "string \<Rightarrow> string" where
  "sample_hash bytes = ''0x'' @ bytes"

definition sample_receipt :: TransactionReceipt where
  "sample_receipt =
     \<lparr>blockNumber = 12345,
      transactionIndex = Fin 7,
      transactionHash = ''0xabc'',
      logs = [\<lparr>topics = [sample_hash ''Approval(address,address,uint256)'']\<rparr>,
              \<lparr>topics = []\<rparr>,
              \<lparr>topics = [sample_hash ''Transfer(address,address,uint256)'', ''0x01'']\<rparr>,
              \<lparr>topics = [sample_hash ''Transfer(address,address,uint256)'', ''0x02'']\<rparr>]\<rparr>"

definition sample_client :: PublicClient where
  "sample_client = \<lparr>chain = Some \<lparr>chain_id = Fin 11155420\<rparr>\<rparr>"

definition job_only :: "string option \<Rightarrow> number option \<Rightarrow> PolymerProofOptions" where
  "job_only sig idx =
     \<lparr>receipt = Some sample_receipt, eventSignature = sig, logIndex = idx,
      maxAttempts_opt = None, interval_opt = None, returnJob = Some True\<rparr>"

text \<open>Options that ask for the proof itself, with the configured attempts and interval.\<close>

definition polling :: "string option \<Rightarrow> number option \<Rightarrow> PolymerProofOptions" where
  "polling sig idx =
     \<lparr>receipt = Some sample_receipt, eventSignature = sig, logIndex = idx,
      maxAttempts_opt = None, interval_opt = None, returnJob = None\<rparr>"



section \<open>Numbers in a request\<close>

lemma safe_integer_of_int: "safe_integer (of_int k) = (\<bar>k\<bar> < 2 ^ 53)"
proof -
  have "(\<bar>of_int k :: rat\<bar> < 2 ^ 53) = (\<bar>k\<bar> < 2 ^ 53)"
    by (metis of_int_abs of_int_less_iff of_int_numeral of_int_power)
  then show ?thesis by (simp add: safe_integer_def)
qed

lemma safe_integer_numeral [simp]: "safe_integer (numeral w) = (numeral w < (2 :: int) ^ 53)"
  using safe_integer_of_int [of "numeral w"] by simp

lemma safe_integer_0 [simp]: "safe_integer 0"
  by (simp add: safe_integer_def)

lemma safe_integer_1 [simp]: "safe_integer 1"
  by (simp add: safe_integer_def)

lemma safe_integer_of_nat: "safe_integer (of_nat i) = (i < 2 ^ 53)"
proof -
  have "(\<bar>int i\<bar> < 2 ^ 53) = (i < 2 ^ 53)"
    by (metis abs_of_nat of_nat_less_iff of_nat_numeral of_nat_power)
  with safe_integer_of_int [of "int i"] show ?thesis by simp
qed

section \<open>Conversion of block numbers\<close>

lemma bit_length_le: "n < 2 ^ k \<Longrightarrow> bit_length n \<le> k"
proof (induction n arbitrary: k rule: bit_length.induct)
  case (1 n)
  show ?case
  proof (cases "n = 0")
    case True
    then show ?thesis by (simp add: bit_length.simps)
  next
    case False
    with "1.prems" obtain j where k: "k = Suc j" by (cases k) auto
    with "1.prems" have "n div 2 < 2 ^ j" by auto
    with "1.IH" [OF False] have "bit_length (n div 2) \<le> j" by blast
    with False k show ?thesis by (subst bit_length.simps) simp
  qed
qed

lemma round_to_53_bits_small: "a < 2 ^ 53 \<Longrightarrow> round_to_53_bits a = a"
  using bit_length_le [of a 53] by (simp add: round_to_53_bits_def)

text \<open>Inside the safe-integer range the conversion loses nothing.\<close>

lemma Number_of_bigint_safe: "\<bar>b\<bar> < 2 ^ 53 \<Longrightarrow> Number_of_bigint b = Fin (of_int b)"
proof -
  assume b: "\<bar>b\<bar> < 2 ^ 53"
  then have small: "nat \<bar>b\<bar> < 2 ^ 53" by (simp add: nat_less_iff)
  have "(2::nat) ^ 53 < 2 ^ 1024" by simp
  with small have "\<not> 2 ^ 1024 \<le> nat \<bar>b\<bar>" by linarith
  moreover have "sgn b * int (nat \<bar>b\<bar>) = b" by (simp add: mult_sgn_abs)
  ultimately show ?thesis
    by (simp add: Number_of_bigint_def round_to_53_bits_small [OF small])
qed

lemma bit_length_eq: "2 ^ k \<le> n \<Longrightarrow> n < 2 ^ Suc k \<Longrightarrow> bit_length n = Suc k"
proof (induction k arbitrary: n)
  case 0
  then have "n = Suc 0" by simp
  then show ?case by (simp add: bit_length.simps [of "Suc 0"] bit_length.simps [of 0])
next
  case (Suc k)
  from Suc.prems have "2 ^ k \<le> n div 2" "n div 2 < 2 ^ Suc k" by simp_all
  then have "bit_length (n div 2) = Suc k" by (rule Suc.IH)
  moreover from Suc.prems have "n \<noteq> 0" by auto
  ultimately show ?case by (subst bit_length.simps) simp
qed

text \<open>Beyond the safe-integer range the conversion rounds: the odd number after \<open>2^53\<close> is lost.\<close>

lemma Number_of_bigint_rounds: "Number_of_bigint (2 ^ 53 + 1) = Fin (2 ^ 53)"
proof -
  have "bit_length (2 ^ 53 + 1) = Suc 53" by (rule bit_length_eq) simp_all
  then have "round_to_53_bits (2 ^ 53 + 1) = 2 ^ 53"
    by (simp add: round_to_53_bits_def)
  moreover have "nat \<bar>2 ^ 53 + 1 :: int\<bar> = 2 ^ 53 + 1" by (simp add: nat_add_distrib nat_power_eq)
  ultimately show ?thesis by (simp add: Number_of_bigint_def)
qed

lemma bit_length_upper: "n < 2 ^ bit_length n"
proof (induction n rule: bit_length.induct)
  case (1 n)
  show ?case
  proof (cases "n = 0")
    case True
    then show ?thesis by (simp add: bit_length.simps)
  next
    case False
    from "1.IH" [OF False] have "n div 2 < 2 ^ bit_length (n div 2)" .
    then have "n < 2 * 2 ^ bit_length (n div 2)" by linarith
    with False show ?thesis by (subst bit_length.simps) simp
  qed
qed

lemma bit_length_lower: "n \<noteq> 0 \<Longrightarrow> 2 ^ (bit_length n - 1) \<le> n"
proof (induction n rule: bit_length.induct)
  case (1 n)
  from "1.prems" have bl: "bit_length n = Suc (bit_length (n div 2))"
    by (subst bit_length.simps) simp
  show ?case
  proof (cases "n div 2 = 0")
    case True
    then show ?thesis using "1.prems" by (simp add: bl bit_length.simps [of 0])
  next
    case False
    from "1.IH" [OF "1.prems" False] have ih: "2 ^ (bit_length (n div 2) - 1) \<le> n div 2" .
    from False have "bit_length (n div 2) \<noteq> 0" by (subst bit_length.simps) simp
    then obtain k where k: "bit_length (n div 2) = Suc k" by (cases "bit_length (n div 2)") auto
    from ih k have "2 * 2 ^ k \<le> 2 * (n div 2)" by simp
    also have "\<dots> \<le> n" by simp
    finally show ?thesis by (simp add: bl k)
  qed
qed

text \<open>
  The rounded magnitude is a multiple of the unit in the last place, \<open>2^e\<close>, by at most
  \<open>2^53\<close>, and it is off by at most half that unit.
\<close>

lemma round_to_53_bits_shape:
  fixes a :: nat
  defines "e \<equiv> bit_length a - 53"
  shows "\<exists>q. round_to_53_bits a = q * 2 ^ e \<and> q \<le> 2 ^ 53 \<and> (e \<noteq> 0 \<longrightarrow> 2 ^ 52 \<le> q)
           \<and> 2 * \<bar>int (round_to_53_bits a) - int a\<bar> \<le> 2 ^ e"
proof -
  define q where "q = a div 2 ^ e"
  define r where "r = a mod 2 ^ e"
  define h :: nat where "h = 2 ^ e div 2"
  define q' where "q' = (if h < r \<or> (e \<noteq> 0 \<and> r = h \<and> odd q) then q + 1 else q)"
  have v: "round_to_53_bits a = q' * 2 ^ e"
    by (simp add: round_to_53_bits_def Let_def q'_def q_def r_def h_def e_def)
  have a: "a = q * 2 ^ e + r" unfolding q_def r_def by (rule div_mult_mod_eq [symmetric])
  have r: "r < 2 ^ e" by (simp add: r_def)
  have "a < 2 ^ bit_length a" by (rule bit_length_upper)
  also have "\<dots> \<le> 2 ^ (53 + e)" by (intro power_increasing) (simp_all add: e_def)
  finally have "a < 2 ^ 53 * 2 ^ e" by (simp add: power_add)
  then have q53: "q < 2 ^ 53" unfolding q_def by (rule less_mult_imp_div_less)
  then have q'53: "q' \<le> 2 ^ 53" by (simp add: q'_def)
  have low: "2 ^ 52 \<le> q'" if e: "e \<noteq> 0"
  proof -
    have a0: "a \<noteq> 0"
    proof
      assume "a = 0"
      then have "bit_length a = 0" by (simp add: bit_length.simps)
      with e show False by (simp add: e_def)
    qed
    from e have bl: "bit_length a = e + 53" by (simp add: e_def)
    from bit_length_lower [OF a0] bl have "2 ^ (52 + e) \<le> a" by (simp add: add.commute)
    then have "2 ^ 52 * 2 ^ e \<le> a" by (simp add: power_add)
    then have "2 ^ 52 \<le> q" unfolding q_def by (simp add: less_eq_div_iff_mult_less_eq)
    then show ?thesis by (simp add: q'_def)
  qed
  have err: "2 * \<bar>int (q' * 2 ^ e) - int a\<bar> \<le> 2 ^ e"
  proof (cases "e = 0")
    case True
    then have "r = 0" "h = 0" using r by (simp_all add: h_def)
    then have "q' = q" by (simp add: q'_def True)
    with a \<open>r = 0\<close> show ?thesis by simp
  next
    case False
    then obtain k where k: "e = Suc k" by (cases e) auto
    then have h2: "2 * h = 2 ^ e" by (simp add: h_def)
    show ?thesis
    proof (cases "q' = q")
      case True
      then have "\<not> h < r" by (auto simp: q'_def)
      then have "2 * r \<le> 2 ^ e" using h2 by linarith
      then have "int (2 * r) \<le> int (2 ^ e)" by (simp only: of_nat_le_iff)
      then have "2 * int r \<le> 2 ^ e" by simp
      moreover have "\<bar>int (q' * 2 ^ e) - int a\<bar> = int r" by (subst a) (simp add: True)
      ultimately show ?thesis by simp
    next
      case False
      then have up: "q' = q + 1" and "h \<le> r" by (auto simp: q'_def split: if_splits)
      have "int (q' * 2 ^ e) - int a = 2 ^ e - int r"
        by (subst a) (simp add: up algebra_simps)
      moreover from r have "int r < int (2 ^ e)" by (simp only: of_nat_less_iff)
      moreover from \<open>h \<le> r\<close> h2 have "2 ^ e \<le> 2 * r" by linarith
      then have "int (2 ^ e) \<le> int (2 * r)" by (simp only: of_nat_le_iff)
      ultimately show ?thesis by simp
    qed
  qed
  from v q'53 low err show ?thesis by auto
qed


text \<open>
  The conversion yields a value of the 64-bit type: a double or an infinity, never
  \<open>NaN\<close>. A finite result is within half a unit in its last place of the bigint, and an
  infinite one comes from a bigint of at least 1024 bits.
\<close>

lemma Number_of_bigint_is_Number: "is_Number (Number_of_bigint b)"
proof -
  define a where "a = nat \<bar>b\<bar>"
  define e where "e = bit_length a - 53"
  from round_to_53_bits_shape [of a] obtain q where
    v: "round_to_53_bits a = q * 2 ^ e" and q: "q \<le> 2 ^ 53" and low: "e \<noteq> 0 \<longrightarrow> 2 ^ 52 \<le> q"
    by (auto simp: e_def)
  show ?thesis
  proof (cases "2 ^ 1024 \<le> round_to_53_bits a")
    case True
    then show ?thesis by (simp add: Number_of_bigint_def is_Number_def a_def)
  next
    case False
    with v have small: "q * 2 ^ e < 2 ^ 1024" by simp
    have sg: "\<bar>sgn b * int k\<bar> \<le> int k" for k
      by (simp add: abs_mult abs_sgn_eq)
    have "is_double (of_int (sgn b * int (q * 2 ^ e)))"
    proof (cases "q < 2 ^ 53")
      case True
      have e971: "e \<le> 971"
      proof (cases "e = 0")
        case False
        with low have q52: "2 ^ 52 \<le> q" by simp
        have "(2::nat) ^ (52 + e) = 2 ^ 52 * 2 ^ e" by (rule power_add)
        also from q52 have "\<dots> \<le> q * 2 ^ e" by (rule mult_le_mono1)
        also note small
        finally have "(2::nat) ^ (52 + e) < 2 ^ 1024" .
        then have "52 + e < 1024" by (rule power_less_imp_less_exp [rotated]) simp
        then show ?thesis by simp
      qed simp
      from True have "int q < int (2 ^ 53)" by (simp only: of_nat_less_iff)
      with sg [of q] have m: "\<bar>sgn b * int q\<bar> < 2 ^ 53" by simp
      have "(of_int (sgn b * int (q * 2 ^ e)) :: rat) =
            of_int (sgn b * int q) * 2 ^ (e + 1074) / 2 ^ 1074"
        by (simp add: power_add)
      with m e971 show ?thesis
        unfolding is_double_def
        by (intro exI [of _ "sgn b * int q"] exI [of _ "e + 1074"]) simp
    next
      case False
      with q have q53: "q = 2 ^ 53" by simp
      have "(2::nat) ^ (53 + e) = 2 ^ 53 * 2 ^ e" by (rule power_add)
      also from small have "\<dots> < 2 ^ 1024" by (simp only: q53)
      finally have "(2::nat) ^ (53 + e) < 2 ^ 1024" .
      then have "53 + e < 1024" by (rule power_less_imp_less_exp [rotated]) simp
      then have e970: "e + 1075 \<le> 2045" by simp
      have "\<bar>sgn b * int (2 ^ 52)\<bar> \<le> int (2 ^ 52)" by (rule sg)
      then have m: "\<bar>sgn b * 2 ^ 52\<bar> < (2::int) ^ 53" by simp
      have "(of_int (sgn b * int (q * 2 ^ e)) :: rat) =
            of_int (sgn b * 2 ^ 52) * 2 ^ (e + 1075) / 2 ^ 1074"
        by (simp add: q53 power_add)
      with m e970 show ?thesis
        unfolding is_double_def
        by (intro exI [of _ "sgn b * 2 ^ 52"] exI [of _ "e + 1075"]) simp
    qed
    then have "is_double (of_int (sgn b * int (round_to_53_bits a)))" by (simp only: v)
    with False show ?thesis by (simp add: Number_of_bigint_def is_Number_def a_def)
  qed
qed

lemma Number_of_bigint_error:
  assumes "Number_of_bigint b = Fin r"
  shows "2 * \<bar>r - of_int b\<bar> \<le> 2 ^ (bit_length (nat \<bar>b\<bar>) - 53)"
proof -
  define a where "a = nat \<bar>b\<bar>"
  define v where "v = round_to_53_bits a"
  from assms have r: "r = of_int (sgn b * int v)"
    by (simp add: Number_of_bigint_def Let_def v_def a_def split: if_splits)
  from round_to_53_bits_shape [of a]
  have err: "2 * \<bar>int v - int a\<bar> \<le> 2 ^ (bit_length a - 53)" by (auto simp: v_def)
  have "int a = \<bar>b\<bar>" by (simp add: a_def)
  then have "sgn b * int v - b = sgn b * (int v - int a)"
    by (simp add: right_diff_distrib mult_sgn_abs)
  then have "\<bar>sgn b * int v - b\<bar> \<le> \<bar>int v - int a\<bar>"
    by (simp add: abs_mult abs_sgn_eq)
  then have "2 * \<bar>sgn b * int v - b\<bar> \<le> 2 * \<bar>int v - int a\<bar>" by simp
  from this err have "2 * \<bar>sgn b * int v - b\<bar> \<le> 2 ^ (bit_length a - 53)"
    by (rule order_trans)
  then have "(of_int (2 * \<bar>sgn b * int v - b\<bar>) :: rat) \<le> of_int (2 ^ (bit_length a - 53))"
    by (simp only: of_int_le_iff)
  then show ?thesis by (simp add: r a_def)
qed

lemma Number_of_bigint_overflow:
  assumes "Number_of_bigint b = PosInf \<or> Number_of_bigint b = NegInf"
  shows "2 ^ 1023 \<le> \<bar>b\<bar>"
proof -
  define a where "a = nat \<bar>b\<bar>"
  define e where "e = bit_length a - 53"
  from round_to_53_bits_shape [of a] obtain q where
    v: "round_to_53_bits a = q * 2 ^ e" and q: "q \<le> 2 ^ 53" and low: "e \<noteq> 0 \<longrightarrow> 2 ^ 52 \<le> q"
    and err: "2 * \<bar>int (round_to_53_bits a) - int a\<bar> \<le> 2 ^ e"
    by (auto simp: e_def)
  from assms have big: "2 ^ 1024 \<le> q * 2 ^ e"
    by (simp add: Number_of_bigint_def Let_def a_def [symmetric] v split: if_splits)
  have "e \<noteq> 0"
  proof
    assume "e = 0"
    with big q have "(2::nat) ^ 1024 \<le> 2 ^ 53" by simp
    then show False by simp
  qed
  with low have "2 ^ 52 \<le> q" by simp
  moreover have "(1::nat) \<le> 2 ^ 52" by simp
  ultimately have "1 \<le> q" by (rule le_trans [rotated])
  then have "1 * 2 ^ e \<le> q * 2 ^ e" by (rule mult_le_mono1)
  then have "2 ^ e \<le> q * 2 ^ e" by (simp only: mult_1)
  define V where "V = int (q * 2 ^ e)"
  define E where "E = int (2 ^ e)"
  define A where "A = int a"
  from \<open>2 ^ e \<le> q * 2 ^ e\<close> have EV: "E \<le> V" unfolding E_def V_def by (simp only: of_nat_le_iff)
  from big have "int (2 ^ 1024) \<le> V" unfolding V_def by (simp only: of_nat_le_iff)
  then have bigV: "2 ^ 1024 \<le> V" by simp
  define W where "W = \<bar>V - A\<bar>"
  from err have "2 * W \<le> E" unfolding W_def V_def E_def A_def v by simp
  moreover have "V - A \<le> W" unfolding W_def by (rule abs_ge_self)
  ultimately have "V \<le> 2 * A" using EV by linarith
  with bigV have "(2::int) ^ 1024 \<le> 2 * A" by (rule order_trans)
  moreover have "(2::int) ^ 1024 = 2 * 2 ^ 1023" by simp
  ultimately have "(2::int) ^ 1023 \<le> A" by linarith
  then show ?thesis by (simp add: A_def a_def)
qed

lemma Number_of_bigint_sign:
  "(Number_of_bigint b = PosInf \<longrightarrow> 0 \<le> b) \<and> (Number_of_bigint b = NegInf \<longrightarrow> b < 0)
   \<and> Number_of_bigint b \<noteq> NaN"
  by (simp add: Number_of_bigint_def Let_def)

text \<open>
  Not every integer is a double: the odd number after \<open>2^53\<close> needs 54 bits of
  significand.
\<close>

lemma not_is_double_odd: "\<not> is_double (2 ^ 53 + 1)"
proof
  assume "is_double (2 ^ 53 + 1)"
  then obtain m :: int and e :: nat where
    m: "\<bar>m\<bar> < 2 ^ 53" and eq: "(2 ^ 53 + 1 :: rat) = of_int m * 2 ^ e / 2 ^ 1074"
    unfolding is_double_def by blast
  from eq have "(of_int ((2 ^ 53 + 1) * 2 ^ 1074) :: rat) = of_int (m * 2 ^ e)"
    by (simp add: field_simps)
  then have int_eq: "(2 ^ 53 + 1) * 2 ^ 1074 = m * 2 ^ e" by (simp only: of_int_eq_iff)
  show False
  proof (cases "e \<le> 1074")
    case True
    then obtain k where k: "1074 = e + k" using le_Suc_ex by blast
    have "(2 ^ 53 + 1) * 2 ^ k * (2::int) ^ e = m * 2 ^ e"
      using int_eq by (simp only: k power_add mult.assoc mult.commute [of "2 ^ e"])
    then have "m = (2 ^ 53 + 1) * 2 ^ k" by simp
    moreover have "(1::int) \<le> 2 ^ k" by simp
    then have "(2 ^ 53 + 1) * (1::int) \<le> (2 ^ 53 + 1) * 2 ^ k" by (rule mult_left_mono) simp
    ultimately have "2 ^ 53 + 1 \<le> m" by simp
    with m show False by simp
  next
    case False
    then obtain k where k: "e = 1074 + Suc k"
      by (metis add_Suc_right less_imp_Suc_add not_le)
    have "(2 ^ 53 + 1) * (2::int) ^ 1074 = m * 2 ^ Suc k * 2 ^ 1074"
      using int_eq by (simp only: k power_add mult.assoc mult.commute [of "2 ^ 1074"])
    then have "(2 ^ 53 + 1 :: int) = m * 2 ^ Suc k" by simp
    also have "\<dots> = 2 * (m * 2 ^ k)" by simp
    finally have "even (2 ^ 53 + 1 :: int)" by (simp only: even_mult_iff even_numeral simp_thms)
    then show False by simp
  qed
qed

section \<open>Traces\<close>

lemma round_trips_logger_log [simp]: "round_trips (logger_log d args tr) = round_trips tr"
  by (simp add: round_trips_def logger_log_def)

lemma round_trips_logger_error [simp]: "round_trips (logger_error d args tr) = round_trips tr"
  by (simp add: round_trips_def logger_error_def)

lemma without_console_logger_log [simp]:
  "without_console (logger_log d args tr) = without_console tr"
  by (simp add: without_console_def logger_log_def)

lemma without_console_logger_error [simp]:
  "without_console (logger_error d args tr) = without_console tr"
  by (simp add: without_console_def logger_error_def)

lemma without_console_append [simp]:
  "without_console (xs @ ys) = without_console xs @ without_console ys"
  by (simp add: without_console_def)

lemma without_console_query_post [simp]:
  "without_console [query_post config jid] = [query_post config jid]"
  by (simp add: without_console_def query_post_def)

lemma without_console_SetTimeout [simp]: "without_console [SetTimeout i] = [SetTimeout i]"
  by (simp add: without_console_def)

lemma round_trips_append [simp]: "round_trips (xs @ ys) = round_trips xs + round_trips ys"
  by (simp add: round_trips_def)

lemma round_trips_query_post [simp]: "round_trips [query_post config jid] = 1"
  by (simp add: round_trips_def query_post_def)

lemma round_trips_SetTimeout [simp]: "round_trips [SetTimeout i] = 0"
  by (simp add: round_trips_def)

lemma round_trips_Nil: "round_trips [] = 0"
  by (simp add: round_trips_def)

lemma without_console_Nil: "without_console [] = []"
  by (simp add: without_console_def)

section \<open>Steps of the poll loop\<close>

lemma post_rpc_delivered:
  "delivered reply = Some res \<Longrightarrow>
   post_rpc config m ps reply tr =
     (Inr res, tr @ [Fetch (apiUrl config) (''Bearer '' @ apiKey config)
                      \<lparr>jsonrpc = ''2.0'', rpc_id = 1, rpc_method = m, params = ps\<rparr>])"
  by (cases reply rule: delivered.cases)
     (auto simp: post_rpc_def split: option.splits if_splits)

lemma queryProofStatus_delivered:
  assumes "delivered (queryProof_reply srv (round_trips tr)) = Some res"
  shows "queryProofStatus srv config jid tr =
           (Inr res,
            logger_log (debug config) [LStr ''Querying proof status for job:'', LStr jid] tr
            @ [query_post config jid])"
  using assms by (simp add: queryProofStatus_def post_rpc_delivered query_post_def)

lemma js_le_Suc_imp:
  assumes "js_le (Fin (of_nat (Suc a))) m"
  shows "js_le (Fin (of_nat a)) m" and "js_lt (Fin (of_nat a)) m"
  using assms by (cases m; simp add: js_le_def)+

lemma js_le_add_imp:
  "js_le (Fin (of_nat (a + k))) m \<Longrightarrow> js_le (Fin (of_nat a)) m"
  by (cases m; simp add: js_le_def)

lemma wait_loop_in_progress:
  assumes le: "js_le (Fin (of_nat a)) (ToNumber maxA)"
    and d: "delivered (queryProof_reply srv (round_trips tr)) = Some s"
    and ip: "in_progress s"
  shows "\<exists>tr'. wait_loop srv config jid maxA ival a tr =
                 wait_loop srv config jid maxA ival (Suc a) tr'
             \<and> without_console tr' =
                 without_console tr @ query_post config jid
                   # (if js_lt (Fin (of_nat a)) (ToNumber maxA) then [SetTimeout ival] else [])
             \<and> round_trips tr' = Suc (round_trips tr)"
proof -
  from ip have st: "status s \<noteq> Complete" "status s \<noteq> Error"
    by (auto simp: in_progress_def)
  let ?tr0 = "logger_log (debug config)
                [LTemplate [LStr ''Polling attempt '', LNum (Fin (of_nat a)),
                            LStr ''/'', lnum maxA]] tr"
  let ?tr1 = "logger_log (debug config) [LStr ''Querying proof status for job:'', LStr jid] ?tr0
              @ [query_post config jid]"
  let ?tr2 = "if js_lt (Fin (of_nat a)) (ToNumber maxA) then
                logger_log (debug config)
                  [LTemplate [LStr ''Waiting '', lnum ival, LStr ''ms before next attempt...'']]
                  ?tr1 @ [SetTimeout ival]
              else ?tr1"
  from d have q: "queryProofStatus srv config jid ?tr0 = (Inr s, ?tr1)"
    by (simp add: queryProofStatus_delivered)
  have "wait_loop srv config jid maxA ival a tr = wait_loop srv config jid maxA ival (Suc a) ?tr2"
    by (subst wait_loop.simps) (simp only: le q st if_True if_False prod.case sum.case)
  moreover have "without_console ?tr2 =
                 without_console tr @ query_post config jid
                   # (if js_lt (Fin (of_nat a)) (ToNumber maxA) then [SetTimeout ival] else [])"
    by simp
  moreover have "round_trips ?tr2 = Suc (round_trips tr)" by simp
  ultimately show ?thesis by blast
qed

lemma wait_loop_in_progress_run:
  assumes "yields srv (round_trips tr) pend"
    and "list_all in_progress pend"
    and "js_le (Fin (of_nat (a + length pend))) (ToNumber maxA)"
  shows "\<exists>tr'. wait_loop srv config jid maxA ival a tr =
                 wait_loop srv config jid maxA ival (a + length pend) tr'
             \<and> without_console tr' =
                 without_console tr
                   @ concat (replicate (length pend) [query_post config jid, SetTimeout ival])
             \<and> round_trips tr' = round_trips tr + length pend"
  using assms
proof (induction pend arbitrary: a tr)
  case Nil
  show ?case by (rule exI [of _ tr]) simp
next
  case (Cons s pend)
  from Cons.prems(3) have le': "js_le (Fin (of_nat (Suc a + length pend))) (ToNumber maxA)" by simp
  then have "js_le (Fin (of_nat (Suc a))) (ToNumber maxA)" by (rule js_le_add_imp)
  then have le: "js_le (Fin (of_nat a)) (ToNumber maxA)" and lt: "js_lt (Fin (of_nat a)) (ToNumber maxA)"
    by (rule js_le_Suc_imp)+
  from Cons.prems(1) have d: "delivered (queryProof_reply srv (round_trips tr)) = Some s"
    and y: "yields srv (Suc (round_trips tr)) pend" by simp_all
  from Cons.prems(2) have ip: "in_progress s" and all: "list_all in_progress pend" by simp_all
  from wait_loop_in_progress [OF le d ip, of config jid ival] lt
  obtain tr1 where
    step: "wait_loop srv config jid maxA ival a tr = wait_loop srv config jid maxA ival (Suc a) tr1"
    and wc1: "without_console tr1 = without_console tr @ [query_post config jid, SetTimeout ival]"
    and rt1: "round_trips tr1 = Suc (round_trips tr)"
    by auto
  from y rt1 have y1: "yields srv (round_trips tr1) pend" by simp
  from Cons.IH [OF y1 all le']
  obtain tr' where
    run: "wait_loop srv config jid maxA ival (Suc a) tr1 =
          wait_loop srv config jid maxA ival (Suc a + length pend) tr'"
    and wc': "without_console tr' =
              without_console tr1
                @ concat (replicate (length pend) [query_post config jid, SetTimeout ival])"
    and rt': "round_trips tr' = round_trips tr1 + length pend"
    by blast
  show ?case
    by (rule exI [of _ tr']) (simp add: step run wc' wc1 rt' rt1)
qed


lemma yields_append:
  "yields srv n (xs @ ys) = (yields srv n xs \<and> yields srv (n + length xs) ys)"
  by (induction xs arbitrary: n) auto

lemma wait_loop_complete:
  assumes le: "js_le (Fin (of_nat a)) (ToNumber maxA)"
    and d: "delivered (queryProof_reply srv (round_trips tr)) = Some res"
    and st: "status res = Complete"
  shows "map_option observable (wait_loop srv config jid maxA ival a tr) =
           Some (Inr res, without_console tr @ [query_post config jid])"
proof -
  let ?tr0 = "logger_log (debug config)
                [LTemplate [LStr ''Polling attempt '', LNum (Fin (of_nat a)),
                            LStr ''/'', lnum maxA]] tr"
  let ?tr1 = "logger_log (debug config) [LStr ''Querying proof status for job:'', LStr jid] ?tr0
              @ [query_post config jid]"
  from d have q: "queryProofStatus srv config jid ?tr0 = (Inr res, ?tr1)"
    by (simp add: queryProofStatus_delivered)
  have "wait_loop srv config jid maxA ival a tr =
          Some (Inr res, logger_log (debug config) [LStr ''Proof generation complete!''] ?tr1)"
    by (subst wait_loop.simps) (simp only: le q st if_True prod.case sum.case simp_thms)
  then show ?thesis by (simp add: observable_def)
qed

lemma wait_loop_error:
  assumes le: "js_le (Fin (of_nat a)) (ToNumber maxA)"
    and d: "delivered (queryProof_reply srv (round_trips tr)) = Some res"
    and st: "status res = Error"
  shows "map_option observable (wait_loop srv config jid maxA ival a tr) =
           Some (Inl (ProofGenerationFailed (reported_reason res)),
                 without_console tr @ [query_post config jid])"
proof -
  let ?tr0 = "logger_log (debug config)
                [LTemplate [LStr ''Polling attempt '', LNum (Fin (of_nat a)),
                            LStr ''/'', lnum maxA]] tr"
  let ?tr1 = "logger_log (debug config) [LStr ''Querying proof status for job:'', LStr jid] ?tr0
              @ [query_post config jid]"
  from d have q: "queryProofStatus srv config jid ?tr0 = (Inr res, ?tr1)"
    by (simp add: queryProofStatus_delivered)
  from st have nc: "status res \<noteq> Complete" by simp
  have "wait_loop srv config jid maxA ival a tr =
          Some (Inl (ProofGenerationFailed (reported_reason res)), ?tr1)"
    by (subst wait_loop.simps)
       (simp only: le q st if_True if_False prod.case sum.case simp_thms job_state.simps
                   reported_reason_def)
  then show ?thesis by (simp add: observable_def)
qed

lemma wait_loop_exhausted:
  assumes "\<not> js_le (Fin (of_nat a)) (ToNumber maxA)"
  shows "wait_loop srv config jid maxA ival a tr = Some (Inl (ProofGenerationTimedOut maxA), tr)"
  using assms by (subst wait_loop.simps) simp

lemma wait_complete_after:
  assumes y: "yields srv (round_trips tr) (pend @ [res])"
    and ip: "list_all in_progress pend"
    and st: "status res = Complete"
    and le: "js_le (Fin (of_nat (Suc (length pend)))) (ToNumber maxA)"
  shows "map_option observable (wait srv config jid maxA ival tr) =
           Some (Inr res,
                 without_console tr
                   @ concat (replicate (length pend) [query_post config jid, SetTimeout ival])
                   @ [query_post config jid])"
proof -
  let ?tr0 = "logger_log (debug config)
                [LTemplate [LStr ''Polling for proof completion (max '', lnum maxA,
                            LStr '' attempts, interval '', lnum ival, LStr ''ms)'']] tr"
  from y have y0: "yields srv (round_trips ?tr0) pend"
    and yr: "yields srv (round_trips tr + length pend) [res]"
    by (simp_all add: yields_append)
  from le have le1: "js_le (Fin (of_nat (1 + length pend))) (ToNumber maxA)" by simp
  from wait_loop_in_progress_run [OF y0 ip le1, of config jid ival]
  obtain tr' where
    run: "wait_loop srv config jid maxA ival 1 ?tr0 =
          wait_loop srv config jid maxA ival (1 + length pend) tr'"
    and wc: "without_console tr' =
             without_console ?tr0
               @ concat (replicate (length pend) [query_post config jid, SetTimeout ival])"
    and rt: "round_trips tr' = round_trips ?tr0 + length pend"
    by blast
  from yr rt have d: "delivered (queryProof_reply srv (round_trips tr')) = Some res" by simp
  show ?thesis
    unfolding wait_def run
    using wait_loop_complete [OF le1 d st, of config jid ival] by (simp add: wc)
qed

lemma wait_failed_after:
  assumes y: "yields srv (round_trips tr) (pend @ [res])"
    and ip: "list_all in_progress pend"
    and st: "status res = Error"
    and le: "js_le (Fin (of_nat (Suc (length pend)))) (ToNumber maxA)"
  shows "map_option observable (wait srv config jid maxA ival tr) =
           Some (Inl (ProofGenerationFailed (reported_reason res)),
                 without_console tr
                   @ concat (replicate (length pend) [query_post config jid, SetTimeout ival])
                   @ [query_post config jid])"
proof -
  let ?tr0 = "logger_log (debug config)
                [LTemplate [LStr ''Polling for proof completion (max '', lnum maxA,
                            LStr '' attempts, interval '', lnum ival, LStr ''ms)'']] tr"
  from y have y0: "yields srv (round_trips ?tr0) pend"
    and yr: "yields srv (round_trips tr + length pend) [res]"
    by (simp_all add: yields_append)
  from le have le1: "js_le (Fin (of_nat (1 + length pend))) (ToNumber maxA)" by simp
  from wait_loop_in_progress_run [OF y0 ip le1, of config jid ival]
  obtain tr' where
    run: "wait_loop srv config jid maxA ival 1 ?tr0 =
          wait_loop srv config jid maxA ival (1 + length pend) tr'"
    and wc: "without_console tr' =
             without_console ?tr0
               @ concat (replicate (length pend) [query_post config jid, SetTimeout ival])"
    and rt: "round_trips tr' = round_trips ?tr0 + length pend"
    by blast
  from yr rt have d: "delivered (queryProof_reply srv (round_trips tr')) = Some res" by simp
  show ?thesis
    unfolding wait_def run
    using wait_loop_error [OF le1 d st, of config jid ival] by (simp add: wc)
qed

lemma wait_timed_out_after:
  assumes y: "yields srv (round_trips tr) (pend @ [s])"
    and ip: "list_all in_progress (pend @ [s])"
  shows "map_option observable
           (wait srv config jid (Some (Fin (of_nat (Suc (length pend))))) ival tr) =
           Some (Inl (ProofGenerationTimedOut (Some (Fin (of_nat (Suc (length pend)))))),
                 without_console tr
                   @ concat (replicate (length pend) [query_post config jid, SetTimeout ival])
                   @ [query_post config jid])"
proof -
  let ?m = "Some (Fin (of_nat (Suc (length pend))))"
  let ?tr0 = "logger_log (debug config)
                [LTemplate [LStr ''Polling for proof completion (max '', lnum ?m,
                            LStr '' attempts, interval '', lnum ival, LStr ''ms)'']] tr"
  from y have y0: "yields srv (round_trips ?tr0) pend"
    and yr: "yields srv (round_trips tr + length pend) [s]"
    by (simp_all add: yields_append)
  from ip have ip0: "list_all in_progress pend" and ips: "in_progress s" by simp_all
  have le1: "js_le (Fin (of_nat (1 + length pend))) (ToNumber ?m)" by (simp add: js_le_def)
  from wait_loop_in_progress_run [OF y0 ip0 le1, of config jid ival]
  obtain tr' where
    run: "wait_loop srv config jid ?m ival 1 ?tr0 =
          wait_loop srv config jid ?m ival (1 + length pend) tr'"
    and wc: "without_console tr' =
             without_console ?tr0
               @ concat (replicate (length pend) [query_post config jid, SetTimeout ival])"
    and rt: "round_trips tr' = round_trips ?tr0 + length pend"
    by blast
  from yr rt have d: "delivered (queryProof_reply srv (round_trips tr')) = Some s" by simp
  from wait_loop_in_progress [OF le1 d ips, of config jid ival]
  obtain tr'' where
    last: "wait_loop srv config jid ?m ival (1 + length pend) tr' =
           wait_loop srv config jid ?m ival (Suc (1 + length pend)) tr''"
    and wc'': "without_console tr'' = without_console tr' @ [query_post config jid]"
    by auto
  have "\<not> js_le (Fin (of_nat (Suc (1 + length pend)))) (ToNumber ?m)" by (simp add: js_le_def)
  then have "wait_loop srv config jid ?m ival (Suc (1 + length pend)) tr'' =
             Some (Inl (ProofGenerationTimedOut ?m), tr'')"
    by (rule wait_loop_exhausted)
  then show ?thesis
    unfolding wait_def run last by (simp add: observable_def wc'' wc)
qed

section \<open>Outcomes of the poll loop \<open>wait\<close>\<close>

text \<open>The definitions that evaluate the sample inputs.\<close>

lemmas sample_defs =
  completing_service_def failing_service_def pending_service_def scripted_def success_def
  job_status_def response_ok_def in_progress_def js_le_def round_trips_def
  without_console_def reported_reason_def truthy_string_def

text \<open>
  C1, amended. Let the status queries be answered by in-progress statuses (pending or
  generating) \<open>pend\<close> and then by a status \<open>res\<close> that is complete, and let
  \<open>maxAttempts\<close> be at least the number of these statuses. Then \<open>wait\<close> returns
  \<open>res\<close>, and what it does to the service and the timer is: one query and one delay for
  each status of \<open>pend\<close>, then the query that is answered by \<open>res\<close>. So there are
  \<open>length pend + 1\<close> queries, a delay between consecutive queries, none before the first
  query and none after the last.
\<close>

theorem wait_returns_first_complete:
  assumes "yields srv (round_trips tr) (pend @ [res])"
    and "list_all in_progress pend"
    and "status res = Complete"
    and "js_le (Fin (of_nat (length pend + 1))) (ToNumber maxA)"
  shows "map_option observable (wait srv config jid maxA ival tr) =
           Some (Inr res,
                 without_console tr
                   @ concat (replicate (length pend) [query_post config jid, SetTimeout ival])
                   @ [query_post config jid])"
  using assms wait_complete_after [of srv tr pend res maxA config jid ival] by simp

text \<open>
  The sequence pending, pending, complete with \<open>maxAttempts = 5\<close>: the complete status
  comes back after 3 queries and 2 delays.
\<close>

theorem wait_returns_first_complete_witness:
  "yields completing_service (round_trips [])
     ([job_status Pending, job_status Pending] @ [job_status Complete])
   \<and> list_all in_progress [job_status Pending, job_status Pending]
   \<and> status (job_status Complete) = Complete
   \<and> js_le (Fin (of_nat (length [job_status Pending, job_status Pending] + 1)))
       (ToNumber (Some (Fin 5)))
   \<and> map_option observable
         (wait completing_service sample_config ''job-1'' (Some (Fin 5)) (Some (Fin 3000)) []) =
       Some (Inr (job_status Complete),
             [query_post sample_config ''job-1'', SetTimeout (Some (Fin 3000)),
              query_post sample_config ''job-1'', SetTimeout (Some (Fin 3000)),
              query_post sample_config ''job-1''])"
  using wait_returns_first_complete
          [of completing_service "[]" "[job_status Pending, job_status Pending]"
              "job_status Complete" "Some (Fin 5)" sample_config "''job-1''" "Some (Fin 3000)"]
  by (simp add: sample_defs)

text \<open>
  Without the bound on \<open>maxAttempts\<close> the statement of C1 fails: on the same sequence
  with \<open>maxAttempts = 2\<close> the loop gives up after the second query, and the complete
  status is never fetched.
\<close>

theorem wait_complete_beyond_maxAttempts:
  "yields completing_service (round_trips [])
     [job_status Pending, job_status Pending, job_status Complete]
   \<and> map_option observable
         (wait completing_service sample_config ''job-1'' (Some (Fin 2)) (Some (Fin 3000)) []) =
       Some (Inl (ProofGenerationTimedOut (Some (Fin 2))),
             [query_post sample_config ''job-1'', SetTimeout (Some (Fin 3000)),
              query_post sample_config ''job-1''])"
  using wait_timed_out_after
          [of completing_service "[]" "[job_status Pending]" "job_status Pending"
              sample_config "''job-1''" "Some (Fin 3000)"]
  by (simp add: sample_defs)



text \<open>
  The theorem is about whole numbers of attempts. With \<open>maxAttempts = 5/2\<close> the loop makes
  two queries, and since \<open>2 < 5/2\<close> it also waits after the second one before it times
  out.
\<close>

lemma wait_fractional_maxAttempts:
  "map_option observable
     (wait pending_service sample_config ''job-1'' (Some (Fin (5 / 2))) (Some (Fin 3000)) []) =
   Some (Inl (ProofGenerationTimedOut (Some (Fin (5 / 2)))),
         [query_post sample_config ''job-1'', SetTimeout (Some (Fin 3000)),
          query_post sample_config ''job-1'', SetTimeout (Some (Fin 3000))])"
proof -
  let ?m = "Some (Fin (5 / 2))"
  let ?tr0 = "logger_log (debug sample_config)
                [LTemplate [LStr ''Polling for proof completion (max '', lnum ?m,
                            LStr '' attempts, interval '', lnum (Some (Fin 3000)), LStr ''ms)'']] []"
  have ip: "in_progress (job_status Pending)" by (simp add: in_progress_def job_status_def)
  have d: "delivered (queryProof_reply pending_service n) = Some (job_status Pending)"
    if "n < 3" for n
    using that by (auto simp: sample_defs less_Suc_eq numeral_3_eq_3)
  have le1: "js_le (Fin (of_nat 1)) (ToNumber ?m)" and le2: "js_le (Fin (of_nat (Suc 1))) (ToNumber ?m)"
    and lt1: "js_lt (Fin (of_nat 1)) (ToNumber ?m)" and lt2: "js_lt (Fin (of_nat (Suc 1))) (ToNumber ?m)"
    and gt3: "\<not> js_le (Fin (of_nat (Suc (Suc 1)))) (ToNumber ?m)"
    by (simp_all add: js_le_def)
  have "round_trips ?tr0 = 0" by (simp add: round_trips_Nil)
  with d [of 0] have d0: "delivered (queryProof_reply pending_service (round_trips ?tr0)) =
                           Some (job_status Pending)" by simp
  from wait_loop_in_progress [OF le1 d0 ip, of sample_config "''job-1''" "Some (Fin 3000)"] lt1
  obtain tr1 where
    s1: "wait_loop pending_service sample_config ''job-1'' ?m (Some (Fin 3000)) 1 ?tr0 =
         wait_loop pending_service sample_config ''job-1'' ?m (Some (Fin 3000)) (Suc 1) tr1"
    and wc1: "without_console tr1 = [query_post sample_config ''job-1'', SetTimeout (Some (Fin 3000))]"
    and rt1: "round_trips tr1 = 1"
    by (auto simp: round_trips_Nil without_console_Nil)
  from d [of 1] rt1
  have d1: "delivered (queryProof_reply pending_service (round_trips tr1)) =
            Some (job_status Pending)" by simp
  from wait_loop_in_progress [OF le2 d1 ip, of sample_config "''job-1''" "Some (Fin 3000)"] lt2
  obtain tr2 where
    s2: "wait_loop pending_service sample_config ''job-1'' ?m (Some (Fin 3000)) (Suc 1) tr1 =
         wait_loop pending_service sample_config ''job-1'' ?m (Some (Fin 3000)) (Suc (Suc 1)) tr2"
    and wc2: "without_console tr2 =
              without_console tr1 @ [query_post sample_config ''job-1'', SetTimeout (Some (Fin 3000))]"
    by auto
  from gt3
  have "wait_loop pending_service sample_config ''job-1'' ?m (Some (Fin 3000)) (Suc (Suc 1)) tr2 =
        Some (Inl (ProofGenerationTimedOut ?m), tr2)"
    by (rule wait_loop_exhausted)
  then show ?thesis
    unfolding wait_def s1 s2 by (simp add: observable_def wc2 wc1)
qed

text \<open>
  C3, amended. Let the status queries be answered by in-progress statuses \<open>pend\<close> and
  then by a status \<open>res\<close> in the error state, and let \<open>maxAttempts\<close> be at least the
  number of these statuses. Then \<open>wait\<close> raises the generation failure after exactly
  \<open>length pend + 1\<close> queries; the error carries the failure reason of \<open>res\<close>, or
  "Unknown error" when the reason is absent or empty.
\<close>

theorem wait_raises_first_error:
  assumes "yields srv (round_trips tr) (pend @ [res])"
    and "list_all in_progress pend"
    and "status res = Error"
    and "js_le (Fin (of_nat (length pend + 1))) (ToNumber maxA)"
  shows "map_option observable (wait srv config jid maxA ival tr) =
           Some (Inl (ProofGenerationFailed (reported_reason res)),
                 without_console tr
                   @ concat (replicate (length pend) [query_post config jid, SetTimeout ival])
                   @ [query_post config jid])"
  using assms wait_failed_after [of srv tr pend res maxA config jid ival] by simp

text \<open>Pending, then an error with a reason: the failure is raised after 2 queries.\<close>

theorem wait_raises_first_error_witness:
  "yields failing_service (round_trips [])
     ([job_status Pending] @ [(job_status Error)\<lparr>failureReason := Some ''bad proof''\<rparr>])
   \<and> list_all in_progress [job_status Pending]
   \<and> status ((job_status Error)\<lparr>failureReason := Some ''bad proof''\<rparr>) = Error
   \<and> js_le (Fin (of_nat (length [job_status Pending] + 1))) (ToNumber (Some (Fin 20)))
   \<and> map_option observable
         (wait failing_service sample_config ''job-1'' (Some (Fin 20)) (Some (Fin 3000)) []) =
       Some (Inl (ProofGenerationFailed ''bad proof''),
             [query_post sample_config ''job-1'', SetTimeout (Some (Fin 3000)),
              query_post sample_config ''job-1''])"
  using wait_raises_first_error
          [of failing_service "[]" "[job_status Pending]"
              "(job_status Error)\<lparr>failureReason := Some ''bad proof''\<rparr>"
              "Some (Fin 20)" sample_config "''job-1''" "Some (Fin 3000)"]
  by (simp add: sample_defs)

text \<open>
  Without the bound on \<open>maxAttempts\<close> the statement of C3 fails: with
  \<open>maxAttempts = 1\<close> the loop times out after the first query and the error status is
  never fetched.
\<close>

theorem wait_error_beyond_maxAttempts:
  "yields failing_service (round_trips [])
     [job_status Pending, (job_status Error)\<lparr>failureReason := Some ''bad proof''\<rparr>]
   \<and> map_option observable
         (wait failing_service sample_config ''job-1'' (Some (Fin 1)) (Some (Fin 3000)) []) =
       Some (Inl (ProofGenerationTimedOut (Some (Fin 1))), [query_post sample_config ''job-1''])"
  using wait_timed_out_after
          [of failing_service "[]" "[]" "job_status Pending" sample_config "''job-1''" "Some (Fin 3000)"]
  by (simp add: sample_defs)

section \<open>Submitting a proof request\<close>

lemma post_rpc_trace:
  "snd (post_rpc config m ps reply tr) =
     tr @ [Fetch (apiUrl config) (''Bearer '' @ apiKey config)
             \<lparr>jsonrpc = ''2.0'', rpc_id = 1, rpc_method = m, params = ps\<rparr>]"
  by (simp add: post_rpc_def Let_def split: http_reply.splits response_body.splits option.splits)

lemma post_rpc_requestProof:
  "snd (post_rpc config ''log_requestProof'' ps reply tr) = tr @ [request_post config ps]"
  by (simp add: post_rpc_trace request_post_def)

lemma post_rpc_queryProof:
  "snd (post_rpc config ''log_queryProof'' [JString jid] reply tr) = tr @ [query_post config jid]"
  by (simp add: post_rpc_trace query_post_def)

lemma without_console_request_post [simp]:
  "without_console [request_post config ps] = [request_post config ps]"
  by (simp add: without_console_def request_post_def)

lemma requestProof_effect:
  "without_console (snd (requestProof srv config cid bn txi lli tr)) =
     without_console tr
       @ [request_post config
            [json_of_number cid,
             json_of_number (case bn of BigInt b \<Rightarrow> Number_of_bigint b | Plain n \<Rightarrow> n),
             json_of_number txi,
             json_of_param lli]]"
  by (simp add: requestProof_def Let_def post_rpc_requestProof split: sum.splits)

text \<open>
  C6. Whatever the service answers, \<open>requestProof\<close> makes exactly one POST, and for a
  block number given as a bigint \<open>b\<close> the second parameter of that request is written from
  \<open>Number(b)\<close>. That value is of the fixed-width type: a double (53 bits of significand)
  or an infinity. When it is finite it is within half a unit in the last place of \<open>b\<close>;
  it is infinite only for a \<open>b\<close> of at least 1024 bits. Inside the safe-integer range it
  is \<open>b\<close> itself, and the request carries the number \<open>b\<close>.
\<close>

theorem requestProof_normalises_bigint:
  "without_console (snd (requestProof srv config cid (BigInt b) txi lli tr)) =
     without_console tr
       @ [request_post config
            [json_of_number cid, json_of_number (Number_of_bigint b),
             json_of_number txi, json_of_param lli]]
   \<and> is_Number (Number_of_bigint b)
   \<and> Number_of_bigint b \<noteq> NaN
   \<and> (\<forall>r. Number_of_bigint b = Fin r \<longrightarrow>
          2 * \<bar>r - of_int b\<bar> \<le> 2 ^ (bit_length (nat \<bar>b\<bar>) - 53))
   \<and> (Number_of_bigint b = PosInf \<or> Number_of_bigint b = NegInf \<longrightarrow> 2 ^ 1023 \<le> \<bar>b\<bar>)
   \<and> (\<bar>b\<bar> < 2 ^ 53 \<longrightarrow>
        Number_of_bigint b = Fin (of_int b)
      \<and> json_of_number (Number_of_bigint b) = JNumber (of_int b))"
proof (intro conjI allI impI)
  show "without_console (snd (requestProof srv config cid (BigInt b) txi lli tr)) =
          without_console tr
            @ [request_post config
                 [json_of_number cid, json_of_number (Number_of_bigint b),
                  json_of_number txi, json_of_param lli]]"
    by (simp add: requestProof_effect)
  show "is_Number (Number_of_bigint b)" by (rule Number_of_bigint_is_Number)
  show "Number_of_bigint b \<noteq> NaN" by (simp add: Number_of_bigint_sign)
next
  fix r
  assume "Number_of_bigint b = Fin r"
  then show "2 * \<bar>r - of_int b\<bar> \<le> 2 ^ (bit_length (nat \<bar>b\<bar>) - 53)"
    by (rule Number_of_bigint_error)
next
  assume "Number_of_bigint b = PosInf \<or> Number_of_bigint b = NegInf"
  then show "2 ^ 1023 \<le> \<bar>b\<bar>" by (rule Number_of_bigint_overflow)
next
  assume safe: "\<bar>b\<bar> < 2 ^ 53"
  then show eq: "Number_of_bigint b = Fin (of_int b)" by (rule Number_of_bigint_safe)
  from safe show "json_of_number (Number_of_bigint b) = JNumber (of_int b)"
    by (simp add: eq safe_integer_of_int)
qed

text \<open>
  The bigint 12345 is sent as the number 12345. The bigint \<open>2^53 + 1\<close> has 54 bits and
  is not a double itself: it becomes the double \<open>2^53\<close>, half a unit in the last place
  away.
\<close>

theorem requestProof_normalises_bigint_witness:
  "\<bar>12345 :: int\<bar> < 2 ^ 53
   \<and> without_console
        (snd (requestProof completing_service sample_config (Fin 11155420) (BigInt 12345)
                (Fin 7) (Some (Fin 2)) [])) =
       [request_post sample_config [JNumber 11155420, JNumber 12345, JNumber 7, JNumber 2]]
   \<and> Number_of_bigint (2 ^ 53 + 1) = Fin (2 ^ 53)
   \<and> is_Number (Number_of_bigint (2 ^ 53 + 1))
   \<and> \<not> is_Number (Fin (2 ^ 53 + 1))
   \<and> 2 * \<bar>(2 ^ 53 :: rat) - of_int (2 ^ 53 + 1)\<bar> \<le> 2 ^ (bit_length (nat \<bar>2 ^ 53 + 1\<bar>) - 53)"
proof -
  note inst = requestProof_normalises_bigint
                [of completing_service sample_config "Fin 11155420" _ "Fin 7" "Some (Fin 2)" "[]"]
  have safe: "\<bar>12345 :: int\<bar> < 2 ^ 53" by simp
  from inst [of 12345, THEN conjunct1]
       inst [of 12345, THEN conjunct2, THEN conjunct2, THEN conjunct2, THEN conjunct2,
             THEN conjunct2, THEN mp, OF safe, THEN conjunct2]
  have sent: "without_console
                (snd (requestProof completing_service sample_config (Fin 11155420)
                        (BigInt 12345) (Fin 7) (Some (Fin 2)) [])) =
              [request_post sample_config [JNumber 11155420, JNumber 12345, JNumber 7, JNumber 2]]"
    by (simp add: without_console_Nil)
  have rounds: "Number_of_bigint (2 ^ 53 + 1) = Fin (2 ^ 53)" by (rule Number_of_bigint_rounds)
  from inst [of "2 ^ 53 + 1", THEN conjunct2, THEN conjunct2, THEN conjunct2, THEN conjunct1,
             THEN spec, THEN mp, OF rounds]
  have err: "2 * \<bar>(2 ^ 53 :: rat) - of_int (2 ^ 53 + 1)\<bar>
               \<le> 2 ^ (bit_length (nat \<bar>2 ^ 53 + 1\<bar>) - 53)" .
  from inst [of "2 ^ 53 + 1", THEN conjunct2, THEN conjunct1]
  have fixed: "is_Number (Number_of_bigint (2 ^ 53 + 1))" .
  have odd: "\<not> is_Number (Fin (2 ^ 53 + 1))"
    using not_is_double_odd by (simp only: is_Number_def number.case simp_thms)
  from safe sent rounds fixed odd err show ?thesis by (simp only: simp_thms)
qed

section \<open>The methods of \<open>client.polymer\<close>\<close>

text \<open>
  C7. With an empty job identifier both \<open>polymer.queryProofStatus\<close> and
  \<open>polymer.wait\<close> fail with "Job ID is required", and the trace is returned as it was
  found: nothing was sent, printed or awaited.
\<close>

theorem empty_job_id_rejected:
  "polymer_queryProofStatus srv polymerConfig '''' tr = (Inl JobIdRequired, tr)
   \<and> polymer_wait srv polymerConfig '''' maxA ival tr = Some (Inl JobIdRequired, tr)"
  by (simp add: polymer_queryProofStatus_def polymer_wait_def truthy_string_def)




lemma query_post_configured [simp]:
  "query_post (sample_config\<lparr>maxAttempts := m, interval := i\<rparr>) jid = query_post sample_config jid"
  by (simp add: query_post_def)



section \<open>What a returning call has done\<close>

lemma queryProofStatus_effect:
  "without_console (snd (queryProofStatus srv config jid tr)) =
     without_console tr @ [query_post config jid]"
  by (simp add: queryProofStatus_def Let_def post_rpc_queryProof split: sum.splits)

text \<open>Induction over a run of the loop that returns.\<close>

lemmas wait_loop_induct = wait_loop.raw_induct [rotated, consumes 1, case_names step]

text \<open>Whatever \<open>wait\<close> returns, it has only added to the trace.\<close>

lemma wait_loop_extends:
  assumes "wait_loop srv config jid maxA ival a tr = Some y"
  shows "\<exists>rest. without_console (snd y) = without_console tr @ rest"
  using assms
proof (induction rule: wait_loop_induct)
  case prems: (step f srv config jid maxA ival attempt tr y)
  let ?tr0 = "logger_log (debug config)
                [LTemplate [LStr ''Polling attempt '', LNum (Fin (of_nat attempt)),
                            LStr ''/'', lnum maxA]] tr"
  obtain r tr1 where q: "queryProofStatus srv config jid ?tr0 = (r, tr1)"
    by (cases "queryProofStatus srv config jid ?tr0")
  from queryProofStatus_effect [of srv config jid ?tr0] q
  have tr1: "without_console tr1 = without_console tr @ [query_post config jid]" by simp
  from prems(2) [unfolded q prod.case] tr1 show ?case
    by (auto split: if_splits sum.splits dest!: prems(1))
qed

section \<open>Locating the log\<close>

lemma findIndex_ge: "- 1 \<le> findIndex p xs"
  by (induction xs) (auto simp: Let_def)

lemma findIndex_none: "(\<forall>x\<in>set xs. \<not> p x) \<Longrightarrow> findIndex p xs = - 1"
  by (induction xs) auto

lemma findIndex_first:
  "i < length xs \<Longrightarrow> p (xs ! i) \<Longrightarrow> (\<forall>j<i. \<not> p (xs ! j)) \<Longrightarrow> findIndex p xs = int i"
proof (induction xs arbitrary: i)
  case Nil
  then show ?case by simp
next
  case (Cons x xs)
  show ?case
  proof (cases i)
    case 0
    with Cons.prems show ?thesis by simp
  next
    case (Suc k)
    with Cons.prems have k: "k < length xs" "p (xs ! k)" by simp_all
    from Cons.prems(3) Suc have nx: "\<not> p x" by auto
    from Cons.prems(3) Suc have "\<forall>j<k. \<not> p (xs ! j)" by auto
    with Cons.IH [OF k] have "findIndex p xs = int k" by simp
    with nx Suc show ?thesis by (simp add: Let_def)
  qed
qed

lemma localLogIndex_explicit:
  "localLogIndex viemKeccak256 rc sig (Some n) =
     (if js_lt n (Fin 0) then Inl NegativeLogIndex else Inr (Some n))"
  by (simp add: localLogIndex_def split: option.splits)

lemma localLogIndex_neither:
  "sig = None \<or> sig = Some [] \<Longrightarrow>
   localLogIndex viemKeccak256 rc sig None = Inl SelectorRequired"
  by (auto simp: localLogIndex_def truthy_string_def)

lemma localLogIndex_signature:
  "s \<noteq> [] \<Longrightarrow>
   localLogIndex viemKeccak256 rc (Some s) None =
     (if findIndex (\<lambda>l. leading_topic l = Some (viemKeccak256 (toBytes s))) (logs rc) = - 1
      then Inl (EventNotFound s)
      else Inr (Some (Fin (of_int
             (findIndex (\<lambda>l. leading_topic l = Some (viemKeccak256 (toBytes s))) (logs rc))))))"
  by (simp add: localLogIndex_def truthy_string_def Let_def)

lemma localLogIndex_not_found:
  assumes "s \<noteq> []"
    and "\<forall>l\<in>set (logs rc). leading_topic l \<noteq> Some (viemKeccak256 (toBytes s))"
  shows "localLogIndex viemKeccak256 rc (Some s) None = Inl (EventNotFound s)"
  using assms by (simp add: localLogIndex_signature findIndex_none)

lemma localLogIndex_found:
  assumes "s \<noteq> []"
    and "i < length (logs rc)"
    and "leading_topic (logs rc ! i) = Some (viemKeccak256 (toBytes s))"
    and "\<forall>j<i. leading_topic (logs rc ! j) \<noteq> Some (viemKeccak256 (toBytes s))"
  shows "localLogIndex viemKeccak256 rc (Some s) None = Inr (Some (Fin (of_nat i)))"
proof -
  from assms(2-4)
  have "findIndex (\<lambda>l. leading_topic l = Some (viemKeccak256 (toBytes s))) (logs rc) = int i"
    by (intro findIndex_first) simp_all
  with assms(1) show ?thesis by (simp add: localLogIndex_signature)
qed

text \<open>
  \<open>polymerProof\<close> reads the selectors and the hash function through \<open>localLogIndex\<close>
  only: two calls that resolve to the same position do the same.
\<close>

lemma polymerProof_cong:
  assumes "receipt options' = receipt options"
    and "maxAttempts_opt options' = maxAttempts_opt options"
    and "interval_opt options' = interval_opt options"
    and "returnJob options' = returnJob options"
    and "\<And>rc. receipt options = Some rc \<Longrightarrow>
           localLogIndex keccak' rc (eventSignature options') (logIndex options') =
           localLogIndex keccak rc (eventSignature options) (logIndex options)"
  shows "polymerProof keccak' srv polymerConfig client options' tr =
         polymerProof keccak srv polymerConfig client options tr"
  using assms by (simp add: polymerProof_def split: option.splits)

lemma polymerProof_resolution_fails:
  assumes "receipt options = Some rc"
    and "chain client = Some c"
    and "truthy_number (chain_id c)"
    and "localLogIndex keccak rc (eventSignature options) (logIndex options) = Inl e"
  shows "polymerProof keccak srv polymerConfig client options tr = Some (Inl e, tr)"
  using assms by (simp add: polymerProof_def)

lemma requestProof_delivered:
  assumes "delivered (requestProof_reply srv (round_trips tr)) = Some jid"
  shows "fst (requestProof srv config cid bn txi lli tr) = Inr jid"
  using assms by (simp add: requestProof_def Let_def post_rpc_delivered)

text \<open>
  Once the log position is resolved, the first thing \<open>polymerProof\<close> does to the
  outside is to post the proof request for that position.
\<close>

lemma polymerProof_submits:
  assumes rc: "receipt options = Some rc"
    and c: "chain client = Some c"
    and cid: "truthy_number (chain_id c)"
    and lli: "localLogIndex keccak rc (eventSignature options) (logIndex options) = Inr lli"
    and run: "polymerProof keccak srv polymerConfig client options tr = Some (r, tr')"
  shows "\<exists>rest. without_console tr' =
                  without_console tr @ proof_request polymerConfig c rc lli # rest"
proof -
  let ?tr0 = "logger_log (debug polymerConfig)
                [LStr ''Transaction receipt details:'',
                 LObj [(''srcChainId'', LNum (chain_id c)),
                       (''srcBlockNumber'', LBig (blockNumber rc)),
                       (''txIndex'', LNum (transactionIndex rc)),
                       (''localLogIndex'', lnum lli),
                       (''transactionHash'', LStr (transactionHash rc))]] tr"
  obtain rr tr1 where
    rp: "requestProof srv polymerConfig (chain_id c) (BigInt (blockNumber rc))
           (transactionIndex rc) lli ?tr0 = (rr, tr1)"
    by (cases "requestProof srv polymerConfig (chain_id c) (BigInt (blockNumber rc))
                 (transactionIndex rc) lli ?tr0")
  from requestProof_effect
         [of srv polymerConfig "chain_id c" "BigInt (blockNumber rc)" "transactionIndex rc"
             lli ?tr0] rp
  have tr1: "without_console tr1 = without_console tr @ [proof_request polymerConfig c rc lli]"
    by (simp add: proof_request_def)
  show ?thesis
  proof (cases rr)
    case (Inl e)
    with run rc c cid lli rp have "tr' = tr1" by (simp add: polymerProof_def)
    with tr1 show ?thesis by simp
  next
    case (Inr jid)
    let ?tr2 = "logger_log (debug polymerConfig) [LStr ''Proof job created with ID:'', LStr jid] tr1"
    show ?thesis
    proof (cases "case returnJob options of None \<Rightarrow> False | Some b \<Rightarrow> b")
      case True
      with run rc c cid lli rp Inr have "tr' = ?tr2" by (simp add: polymerProof_def)
      with tr1 show ?thesis by simp
    next
      case False
      with run rc c cid lli rp Inr obtain y where
        w: "wait srv polymerConfig jid
              (case maxAttempts_opt options of None \<Rightarrow> maxAttempts polymerConfig | Some n \<Rightarrow> Some n)
              (case interval_opt options of None \<Rightarrow> interval polymerConfig | Some n \<Rightarrow> Some n)
              ?tr2 = Some y"
        and y: "snd y = tr'"
        by (auto simp: polymerProof_def)
      from wait_loop_extends [OF w [unfolded wait_def]] y tr1 show ?thesis by auto
    qed
  qed
qed

text \<open>Asked for the job only, \<open>polymerProof\<close> returns after that one request.\<close>

lemma polymerProof_job_only:
  assumes rc: "receipt options = Some rc"
    and c: "chain client = Some c"
    and cid: "truthy_number (chain_id c)"
    and lli: "localLogIndex keccak rc (eventSignature options) (logIndex options) = Inr lli"
    and rj: "returnJob options = Some True"
    and d: "delivered (requestProof_reply srv (round_trips tr)) = Some jid"
  shows "map_option observable (polymerProof keccak srv polymerConfig client options tr) =
           Some (Inr (Job \<lparr>jobId = jid, receipt_of_job = Some rc\<rparr>),
                 without_console tr @ [proof_request polymerConfig c rc lli])"
proof -
  let ?tr0 = "logger_log (debug polymerConfig)
                [LStr ''Transaction receipt details:'',
                 LObj [(''srcChainId'', LNum (chain_id c)),
                       (''srcBlockNumber'', LBig (blockNumber rc)),
                       (''txIndex'', LNum (transactionIndex rc)),
                       (''localLogIndex'', lnum lli),
                       (''transactionHash'', LStr (transactionHash rc))]] tr"
  obtain rr tr1 where
    rp: "requestProof srv polymerConfig (chain_id c) (BigInt (blockNumber rc))
           (transactionIndex rc) lli ?tr0 = (rr, tr1)"
    by (cases "requestProof srv polymerConfig (chain_id c) (BigInt (blockNumber rc))
                 (transactionIndex rc) lli ?tr0")
  from requestProof_effect
         [of srv polymerConfig "chain_id c" "BigInt (blockNumber rc)" "transactionIndex rc"
             lli ?tr0] rp
  have tr1: "without_console tr1 = without_console tr @ [proof_request polymerConfig c rc lli]"
    by (simp add: proof_request_def)
  from d have "delivered (requestProof_reply srv (round_trips ?tr0)) = Some jid" by simp
  from requestProof_delivered [OF this, of polymerConfig "chain_id c" "BigInt (blockNumber rc)"
                                 "transactionIndex rc" lli] rp
  have rr: "rr = Inr jid" by simp
  from rc c cid lli rj rp rr tr1 show ?thesis
    by (simp add: polymerProof_def observable_def)
qed

text \<open>The definitions that evaluate the sample receipt and options.\<close>

lemmas sample_input_defs =
  sample_receipt_def sample_client_def sample_hash_def job_only_def toBytes_def
  leading_topic_def

text \<open>
  C4. Let \<open>polymerProof\<close> be called with a receipt, on a client with a chain, with a
  non-empty event signature and no \<open>logIndex\<close>. The topic looked for is the hash of the
  signature's bytes. If no log of the receipt has it as its leading topic, the call fails
  with "Event ... not found in transaction receipt" before anything is sent. If \<open>i\<close> is
  the first position whose log has it as its leading topic, the position resolved is
  \<open>i\<close>, and the call does exactly what it does when \<open>logIndex\<close> is given as \<open>i\<close>.
\<close>

theorem polymerProof_by_event_signature:
  assumes "receipt options = Some rc"
    and "eventSignature options = Some sig"
    and "sig \<noteq> []"
    and "logIndex options = None"
    and "chain client = Some c"
    and "truthy_number (chain_id c)"
  shows "((\<forall>l\<in>set (logs rc). leading_topic l \<noteq> Some (keccak (toBytes sig))) \<longrightarrow>
            localLogIndex keccak rc (Some sig) None = Inl (EventNotFound sig)
          \<and> polymerProof keccak srv polymerConfig client options tr =
              Some (Inl (EventNotFound sig), tr))
       \<and> (\<forall>i. i < length (logs rc)
              \<and> leading_topic (logs rc ! i) = Some (keccak (toBytes sig))
              \<and> (\<forall>j<i. leading_topic (logs rc ! j) \<noteq> Some (keccak (toBytes sig))) \<longrightarrow>
            localLogIndex keccak rc (Some sig) None = Inr (Some (Fin (of_nat i)))
          \<and> polymerProof keccak srv polymerConfig client options tr =
              polymerProof keccak srv polymerConfig client
                (options\<lparr>logIndex := Some (Fin (of_nat i))\<rparr>) tr)"
proof (intro conjI impI allI)
  assume none: "\<forall>l\<in>set (logs rc). leading_topic l \<noteq> Some (keccak (toBytes sig))"
  with assms(3) show nf: "localLogIndex keccak rc (Some sig) None = Inl (EventNotFound sig)"
    by (rule localLogIndex_not_found)
  with assms show "polymerProof keccak srv polymerConfig client options tr =
                     Some (Inl (EventNotFound sig), tr)"
    by (intro polymerProof_resolution_fails) simp_all
next
  fix i
  assume first: "i < length (logs rc)
                 \<and> leading_topic (logs rc ! i) = Some (keccak (toBytes sig))
                 \<and> (\<forall>j<i. leading_topic (logs rc ! j) \<noteq> Some (keccak (toBytes sig)))"
  with assms(3) show found: "localLogIndex keccak rc (Some sig) None = Inr (Some (Fin (of_nat i)))"
    by (intro localLogIndex_found) simp_all
  have "localLogIndex keccak rc (eventSignature options) (Some (Fin (of_nat i))) =
        Inr (Some (Fin (of_nat i)))"
    by (simp add: localLogIndex_explicit)
  with found assms(1,2,4)
  show "polymerProof keccak srv polymerConfig client options tr =
          polymerProof keccak srv polymerConfig client
            (options\<lparr>logIndex := Some (Fin (of_nat i))\<rparr>) tr"
    by (intro polymerProof_cong [symmetric]) simp_all
qed

text \<open>
  The sample receipt carries the transfer topic at positions 2 and 3: position 2 is the
  one submitted. It carries no mint topic: asking for one fails.
\<close>

theorem polymerProof_by_event_signature_witness:
  "localLogIndex sample_hash sample_receipt (Some ''Transfer(address,address,uint256)'') None =
     Inr (Some (Fin 2))
   \<and> map_option observable
         (polymerProof sample_hash completing_service sample_config sample_client
            (job_only (Some ''Transfer(address,address,uint256)'') None) []) =
       Some (Inr (Job \<lparr>jobId = ''job-1'', receipt_of_job = Some sample_receipt\<rparr>),
             [request_post sample_config
                [JNumber 11155420, JNumber 12345, JNumber 7, JNumber 2]])
   \<and> polymerProof sample_hash completing_service sample_config sample_client
         (job_only (Some ''Mint(uint256)'') None) [] =
       Some (Inl (EventNotFound ''Mint(uint256)''), [])"
proof -
  let ?T = "''Transfer(address,address,uint256)''"
  let ?M = "''Mint(uint256)''"
  let ?c = "\<lparr>chain_id = Fin 11155420\<rparr>"
  note found =
    polymerProof_by_event_signature
      [of "job_only (Some ?T) None" sample_receipt ?T sample_client ?c sample_hash
          completing_service sample_config "[]",
       THEN conjunct2, rule_format, of 2]
  have first: "2 < length (logs sample_receipt)
      \<and> leading_topic (logs sample_receipt ! 2) = Some (sample_hash (toBytes ?T))
      \<and> (\<forall>j<2. leading_topic (logs sample_receipt ! j) \<noteq> Some (sample_hash (toBytes ?T)))"
    by (simp add: sample_input_defs less_2_cases_iff)
  have pre: "receipt (job_only (Some ?T) None) = Some sample_receipt"
    "eventSignature (job_only (Some ?T) None) = Some ?T" "?T \<noteq> []"
    "logIndex (job_only (Some ?T) None) = None"
    "chain sample_client = Some ?c" "truthy_number (chain_id ?c)"
    by (simp_all add: sample_input_defs)
  from found [OF pre first]
  have idx: "localLogIndex sample_hash sample_receipt (Some ?T) None = Inr (Some (Fin 2))"
    and same: "polymerProof sample_hash completing_service sample_config sample_client
                 (job_only (Some ?T) None) [] =
               polymerProof sample_hash completing_service sample_config sample_client
                 ((job_only (Some ?T) None)\<lparr>logIndex := Some (Fin 2)\<rparr>) []"
    by simp_all
  have "map_option observable
          (polymerProof sample_hash completing_service sample_config sample_client
             ((job_only (Some ?T) None)\<lparr>logIndex := Some (Fin 2)\<rparr>) []) =
        Some (Inr (Job \<lparr>jobId = ''job-1'', receipt_of_job = Some sample_receipt\<rparr>),
              without_console [] @ [proof_request sample_config ?c sample_receipt (Some (Fin 2))])"
    by (rule polymerProof_job_only)
       (simp_all add: sample_input_defs localLogIndex_explicit completing_service_def
          scripted_def success_def response_ok_def round_trips_def)
  then have job: "map_option observable
          (polymerProof sample_hash completing_service sample_config sample_client
             (job_only (Some ?T) None) []) =
        Some (Inr (Job \<lparr>jobId = ''job-1'', receipt_of_job = Some sample_receipt\<rparr>),
              [request_post sample_config
                 [JNumber 11155420, JNumber 12345, JNumber 7, JNumber 2]])"
    by (simp add: same proof_request_def without_console_def sample_receipt_def
          Number_of_bigint_safe)
  have preM: "receipt (job_only (Some ?M) None) = Some sample_receipt"
    "eventSignature (job_only (Some ?M) None) = Some ?M" "?M \<noteq> []"
    "logIndex (job_only (Some ?M) None) = None"
    by (simp_all add: sample_input_defs)
  have noneM: "\<forall>l\<in>set (logs sample_receipt). leading_topic l \<noteq> Some (sample_hash (toBytes ?M))"
    by (simp add: sample_input_defs)
  from polymerProof_by_event_signature
         [of "job_only (Some ?M) None" sample_receipt ?M sample_client ?c sample_hash
             completing_service sample_config "[]",
          OF preM pre(5,6), THEN conjunct1, THEN mp, OF noneM]
  have "polymerProof sample_hash completing_service sample_config sample_client
          (job_only (Some ?M) None) [] = Some (Inl (EventNotFound ?M), [])"
    by simp
  with idx job show ?thesis by simp
qed

text \<open>
  The errors of a round trip are those of the transport and of the service; the loop adds
  its own two. None of them is the error of a signature that was not found.
\<close>

lemma post_rpc_error_kind:
  "fst (post_rpc config m ps reply tr) = Inl e \<Longrightarrow>
   (\<exists>x. e = Thrown x) \<or> (\<exists>st. e = HttpError st) \<or> (\<exists>j. e = PolymerApiError j)"
  by (auto simp: post_rpc_def Let_def
           split: http_reply.splits response_body.splits option.splits if_splits)

lemma requestProof_not_EventNotFound:
  "fst (requestProof srv config cid bn txi lli tr) \<noteq> Inl (EventNotFound s)"
  by (auto simp: requestProof_def Let_def split: sum.splits dest!: post_rpc_error_kind)

lemma queryProofStatus_not_EventNotFound:
  "fst (queryProofStatus srv config jid tr) \<noteq> Inl (EventNotFound s)"
  by (auto simp: queryProofStatus_def Let_def split: sum.splits dest!: post_rpc_error_kind)

lemma wait_loop_not_EventNotFound:
  assumes "wait_loop srv config jid maxA ival a tr = Some y"
  shows "fst y \<noteq> Inl (EventNotFound s)"
  using assms
proof (induction rule: wait_loop_induct)
  case prems: (step f srv config jid maxA ival attempt tr y)
  let ?tr0 = "logger_log (debug config)
                [LTemplate [LStr ''Polling attempt '', LNum (Fin (of_nat attempt)),
                            LStr ''/'', lnum maxA]] tr"
  obtain r tr1 where q: "queryProofStatus srv config jid ?tr0 = (r, tr1)"
    by (cases "queryProofStatus srv config jid ?tr0")
  from queryProofStatus_not_EventNotFound [of srv config jid ?tr0 s] q
  have r: "r \<noteq> Inl (EventNotFound s)" by simp
  from prems(2) [unfolded q prod.case] r show ?case
    by (auto split: if_splits sum.splits dest!: prems(1))
qed

lemma map_sum_id_Inl_iff: "map_sum id g a = Inl e \<longleftrightarrow> a = Inl e"
  by (cases a) simp_all

lemma polymerProof_explicit_not_EventNotFound:
  assumes "logIndex options = Some n"
  shows "polymerProof keccak srv polymerConfig client options tr \<noteq>
           Some (Inl (EventNotFound s), tr')"
proof
  assume run: "polymerProof keccak srv polymerConfig client options tr =
                 Some (Inl (EventNotFound s), tr')"
  show False
  proof (cases "receipt options")
    case None
    with run show False by (simp add: polymerProof_def)
  next
    case (Some rc)
    note rc = this
    show False
    proof (cases "chain client")
      case None
      with run rc show False by (simp add: polymerProof_def)
    next
      case (Some c)
      note c = this
      show False
      proof (cases "truthy_number (chain_id c) \<and> \<not> js_lt n (Fin 0)")
        case False
        with run rc c assms show False
          by (auto simp: polymerProof_def localLogIndex_explicit split: if_splits)
      next
        case True
        let ?tr0 = "logger_log (debug polymerConfig)
                      [LStr ''Transaction receipt details:'',
                       LObj [(''srcChainId'', LNum (chain_id c)),
                             (''srcBlockNumber'', LBig (blockNumber rc)),
                             (''txIndex'', LNum (transactionIndex rc)),
                             (''localLogIndex'', LNum n),
                             (''transactionHash'', LStr (transactionHash rc))]] tr"
        obtain rr tr1 where
          rp: "requestProof srv polymerConfig (chain_id c) (BigInt (blockNumber rc))
                 (transactionIndex rc) (Some n) ?tr0 = (rr, tr1)"
          by (cases "requestProof srv polymerConfig (chain_id c) (BigInt (blockNumber rc))
                       (transactionIndex rc) (Some n) ?tr0")
        from requestProof_not_EventNotFound
               [of srv polymerConfig "chain_id c" "BigInt (blockNumber rc)"
                   "transactionIndex rc" "Some n" ?tr0 s] rp
        have rr: "rr \<noteq> Inl (EventNotFound s)" by simp
        show False
        proof (cases rr)
          case (Inl e)
          with run rc c assms True rp rr show False
            by (simp add: polymerProof_def localLogIndex_explicit)
        next
          case (Inr jid)
          with run rc c assms True rp show False
            by (auto simp: polymerProof_def localLogIndex_explicit wait_def map_sum_id_Inl_iff
                     split: if_splits dest!: wait_loop_not_EventNotFound [where s = s])
        qed
      qed
    qed
  qed
qed

section \<open>The debug flag\<close>

lemma is_fetch_not_console: "is_fetch e \<Longrightarrow> \<not> is_console e"
  by (cases e) simp_all

lemma round_trips_without_console: "round_trips (without_console tr) = round_trips tr"
proof -
  have "filter is_fetch (filter (\<lambda>e. \<not> is_console e) tr) = filter is_fetch tr"
    by (induction tr) (auto dest: is_fetch_not_console)
  then show ?thesis by (simp add: round_trips_def without_console_def)
qed

lemma round_trips_cong:
  "without_console t1 = without_console t2 \<Longrightarrow> round_trips t1 = round_trips t2"
  by (metis round_trips_without_console)

lemma post_rpc_outcome:
  "fst (post_rpc config m ps reply tr) = fst (post_rpc config' m ps reply tr')"
  by (simp add: post_rpc_def Let_def
           split: http_reply.splits response_body.splits option.splits)

lemma observable_eq_iff:
  "observable x = observable y \<longleftrightarrow>
   fst x = fst y \<and> without_console (snd x) = without_console (snd y)"
  by (simp add: observable_def)

lemma queryProofStatus_debug:
  assumes "without_console t1 = without_console t2"
  shows "observable (queryProofStatus srv (config\<lparr>debug := d1\<rparr>) jid t1) =
         observable (queryProofStatus srv (config\<lparr>debug := d2\<rparr>) jid t2)"
proof -
  let ?q = "\<lambda>d t. queryProofStatus srv (config\<lparr>debug := d\<rparr>) jid t"
  from assms have rt: "round_trips t1 = round_trips t2" by (rule round_trips_cong)
  have wc: "without_console (snd (?q d t)) = without_console t @ [query_post config jid]" for d t
    using queryProofStatus_effect [of srv "config\<lparr>debug := d\<rparr>" jid t]
    by (simp add: query_post_def)
  have res: "fst (?q d t) =
             fst (post_rpc config ''log_queryProof'' [JString jid]
                    (queryProof_reply srv (round_trips t)) [])" for d t
    using post_rpc_outcome
            [of "config\<lparr>debug := d\<rparr>" "''log_queryProof''" "[JString jid]"
                "queryProof_reply srv (round_trips t)" _ config "[]"]
    by (simp add: queryProofStatus_def Let_def split: sum.splits)
  show ?thesis by (simp add: observable_eq_iff wc res rt assms)
qed

lemma requestProof_debug:
  assumes "without_console t1 = without_console t2"
  shows "observable (requestProof srv (config\<lparr>debug := d1\<rparr>) cid bn txi lli t1) =
         observable (requestProof srv (config\<lparr>debug := d2\<rparr>) cid bn txi lli t2)"
proof -
  let ?q = "\<lambda>d t. requestProof srv (config\<lparr>debug := d\<rparr>) cid bn txi lli t"
  let ?ps = "[json_of_number cid,
              json_of_number (case bn of BigInt b \<Rightarrow> Number_of_bigint b | Plain n \<Rightarrow> n),
              json_of_number txi, json_of_param lli]"
  from assms have rt: "round_trips t1 = round_trips t2" by (rule round_trips_cong)
  have wc: "without_console (snd (?q d t)) = without_console t @ [request_post config ?ps]"
    for d t
    using requestProof_effect [of srv "config\<lparr>debug := d\<rparr>" cid bn txi lli t]
    by (simp add: request_post_def)
  have res: "fst (?q d t) =
             fst (post_rpc config ''log_requestProof'' ?ps
                    (requestProof_reply srv (round_trips t)) [])" for d t
    using post_rpc_outcome
            [of "config\<lparr>debug := d\<rparr>" "''log_requestProof''" ?ps
                "requestProof_reply srv (round_trips t)" _ config "[]"]
    by (simp add: requestProof_def Let_def split: sum.splits)
  show ?thesis by (simp add: observable_eq_iff wc res rt assms)
qed

text \<open>
  A run of the loop that returns is matched, step for step, by the run under any other
  setting of the debug flag, from any trace with the same effects.
\<close>

lemma wait_loop_debug_sim:
  assumes "wait_loop srv config jid maxA ival a t1 = Some y1"
  shows "\<forall>d t2. without_console t1 = without_console t2 \<longrightarrow>
           (\<exists>y2. wait_loop srv (config\<lparr>debug := d\<rparr>) jid maxA ival a t2 = Some y2
                \<and> observable y2 = observable y1)"
  using assms
proof (induction rule: wait_loop_induct)
  case prems: (step f srv config jid maxA ival attempt t1 y1)
  show ?case
  proof (intro allI impI)
    fix d t2
    assume wc: "without_console t1 = without_console t2"
    let ?c2 = "config\<lparr>debug := d\<rparr>"
    let ?msg = "[LTemplate [LStr ''Polling attempt '', LNum (Fin (of_nat attempt)),
                            LStr ''/'', lnum maxA]]"
    let ?t10 = "logger_log (debug config) ?msg t1"
    let ?t20 = "logger_log d ?msg t2"
    obtain r1 t11 where q1: "queryProofStatus srv config jid ?t10 = (r1, t11)"
      by (cases "queryProofStatus srv config jid ?t10")
    obtain r2 t21 where q2: "queryProofStatus srv ?c2 jid ?t20 = (r2, t21)"
      by (cases "queryProofStatus srv ?c2 jid ?t20")
    from wc have "without_console ?t10 = without_console ?t20" by simp
    from queryProofStatus_debug
           [OF this, where srv = srv and config = config and ?d1.0 = "debug config"
              and jid = jid and ?d2.0 = d] q1 q2
    have rel: "r2 = r1" "without_console t21 = without_console t11"
      by (simp_all add: observable_eq_iff)
    show "\<exists>y2. wait_loop srv ?c2 jid maxA ival attempt t2 = Some y2
               \<and> observable y2 = observable y1"
    proof (cases "js_le (Fin (of_nat attempt)) (ToNumber maxA)")
      case False
      with prems(2) have "y1 = (Inl (ProofGenerationTimedOut maxA), t1)" by simp
      with False wc show ?thesis
        by (simp add: wait_loop_exhausted observable_eq_iff)
    next
      case le: True
      show ?thesis
      proof (cases r1)
        case (Inl e)
        with prems(2) le q1 have y1: "y1 = (Inl e, t11)" by simp
        have "wait_loop srv ?c2 jid maxA ival attempt t2 = Some (Inl e, t21)"
          by (subst wait_loop.simps) (simp add: le q2 rel Inl)
        with y1 rel show ?thesis by (simp add: observable_eq_iff)
      next
        case (Inr res)
        show ?thesis
        proof (cases "status res = Complete \<or> status res = Error")
          case True
          then show ?thesis
          proof
            assume st: "status res = Complete"
            with prems(2) le q1 Inr
            have y1: "y1 = (Inr res, logger_log (debug config)
                                       [LStr ''Proof generation complete!''] t11)"
              by simp
            have "wait_loop srv ?c2 jid maxA ival attempt t2 =
                    Some (Inr res, logger_log d [LStr ''Proof generation complete!''] t21)"
              by (subst wait_loop.simps) (simp add: le q2 rel Inr st)
            with y1 rel show ?thesis by (simp add: observable_eq_iff)
          next
            assume st: "status res = Error"
            with prems(2) le q1 Inr
            have y1: "y1 = (Inl (ProofGenerationFailed (reported_reason res)), t11)"
              by (simp add: reported_reason_def)
            have "wait_loop srv ?c2 jid maxA ival attempt t2 =
                    Some (Inl (ProofGenerationFailed (reported_reason res)), t21)"
              by (subst wait_loop.simps) (simp add: le q2 rel Inr st reported_reason_def)
            with y1 rel show ?thesis by (simp add: observable_eq_iff)
          qed
        next
          case False
          then have st: "status res \<noteq> Complete" "status res \<noteq> Error" by simp_all
          let ?w = "[LTemplate [LStr ''Waiting '', lnum ival,
                                LStr ''ms before next attempt...'']]"
          let ?t1' = "if js_lt (Fin (of_nat attempt)) (ToNumber maxA)
                      then logger_log (debug config) ?w t11 @ [SetTimeout ival] else t11"
          let ?t2' = "if js_lt (Fin (of_nat attempt)) (ToNumber maxA)
                      then logger_log d ?w t21 @ [SetTimeout ival] else t21"
          from prems(2) le q1 Inr st
          have "f srv config jid maxA ival (Suc attempt) ?t1' = Some y1" by simp
          from prems(1) [OF this]
          have ih: "\<forall>d t2. without_console ?t1' = without_console t2 \<longrightarrow>
                      (\<exists>y2. wait_loop srv (config\<lparr>debug := d\<rparr>) jid maxA ival (Suc attempt) t2
                               = Some y2
                           \<and> observable y2 = observable y1)" .
          from rel have "without_console ?t1' = without_console ?t2'" by simp
          with ih obtain y2 where
            y2: "wait_loop srv ?c2 jid maxA ival (Suc attempt) ?t2' = Some y2"
            and obs: "observable y2 = observable y1"
            by blast
          have "wait_loop srv ?c2 jid maxA ival attempt t2 =
                wait_loop srv ?c2 jid maxA ival (Suc attempt) ?t2'"
            by (subst wait_loop.simps) (simp add: le q2 rel Inr st)
          with y2 obs show ?thesis by simp
        qed
      qed
    qed
  qed
qed

lemma wait_loop_debug:
  assumes wc: "without_console t1 = without_console t2"
  shows "map_option observable (wait_loop srv (config\<lparr>debug := d1\<rparr>) jid maxA ival a t1) =
         map_option observable (wait_loop srv (config\<lparr>debug := d2\<rparr>) jid maxA ival a t2)"
proof (cases "wait_loop srv (config\<lparr>debug := d1\<rparr>) jid maxA ival a t1")
  case (Some y1)
  from wait_loop_debug_sim [OF Some, rule_format, OF wc, of d2]
  obtain y2 where "wait_loop srv (config\<lparr>debug := d2\<rparr>) jid maxA ival a t2 = Some y2"
    and "observable y2 = observable y1"
    by auto
  with Some show ?thesis by simp
next
  case None
  have "wait_loop srv (config\<lparr>debug := d2\<rparr>) jid maxA ival a t2 = None"
  proof (rule ccontr)
    assume "wait_loop srv (config\<lparr>debug := d2\<rparr>) jid maxA ival a t2 \<noteq> None"
    then obtain y2 where
      "wait_loop srv (config\<lparr>debug := d2\<rparr>) jid maxA ival a t2 = Some y2" by auto
    from wait_loop_debug_sim [OF this, rule_format, OF wc [symmetric], of d1] None
    show False by auto
  qed
  with None show ?thesis by simp
qed

lemma wait_debug:
  assumes "without_console t1 = without_console t2"
  shows "map_option observable (wait srv (config\<lparr>debug := d1\<rparr>) jid maxA ival t1) =
         map_option observable (wait srv (config\<lparr>debug := d2\<rparr>) jid maxA ival t2)"
  unfolding wait_def using assms by (intro wait_loop_debug) simp

lemma polymer_wait_debug:
  "map_option observable (polymer_wait srv (config\<lparr>debug := d1\<rparr>) jid maxA ival tr) =
   map_option observable (polymer_wait srv (config\<lparr>debug := d2\<rparr>) jid maxA ival tr)"
  using wait_debug [of tr tr]
  by (simp add: polymer_wait_def)

lemma polymer_queryProofStatus_debug:
  "observable (polymer_queryProofStatus srv (config\<lparr>debug := d1\<rparr>) jid tr) =
   observable (polymer_queryProofStatus srv (config\<lparr>debug := d2\<rparr>) jid tr)"
  using queryProofStatus_debug [of tr tr]
  by (simp add: polymer_queryProofStatus_def)

lemma polymer_requestProof_debug:
  "observable (polymer_requestProof srv (config\<lparr>debug := d1\<rparr>) ps tr) =
   observable (polymer_requestProof srv (config\<lparr>debug := d2\<rparr>) ps tr)"
  using requestProof_debug [of tr tr]
  by (simp add: polymer_requestProof_def)

lemma observable_map_prod:
  "map_option observable (map_option (map_prod g id) x) =
   map_option (map_prod g id) (map_option observable x)"
  by (cases x) (auto simp: observable_def)

lemma polymerProof_debug:
  "map_option observable
     (polymerProof keccak srv (config\<lparr>debug := d1\<rparr>) client options tr) =
   map_option observable
     (polymerProof keccak srv (config\<lparr>debug := d2\<rparr>) client options tr)"
proof (cases "receipt options")
  case None
  then show ?thesis by (simp add: polymerProof_def)
next
  case (Some rc)
  note rc = this
  show ?thesis
  proof (cases "chain client")
    case None
    with rc show ?thesis by (simp add: polymerProof_def)
  next
    case (Some c)
    note c = this
    show ?thesis
    proof (cases "truthy_number (chain_id c)")
      case False
      with rc c show ?thesis by (simp add: polymerProof_def)
    next
      case cid: True
      show ?thesis
      proof (cases "localLogIndex keccak rc (eventSignature options) (logIndex options)")
        case (Inl e)
        with rc c cid show ?thesis by (simp add: polymerProof_def)
      next
        case (Inr lli)
        let ?msg = "[LStr ''Transaction receipt details:'',
                     LObj [(''srcChainId'', LNum (chain_id c)),
                           (''srcBlockNumber'', LBig (blockNumber rc)),
                           (''txIndex'', LNum (transactionIndex rc)),
                           (''localLogIndex'',
                              lnum lli),
                           (''transactionHash'', LStr (transactionHash rc))]]"
        let ?rp = "\<lambda>d. requestProof srv (config\<lparr>debug := d\<rparr>) (chain_id c)
                          (BigInt (blockNumber rc)) (transactionIndex rc) lli
                          (logger_log d ?msg tr)"
        obtain r1 t1 where rp1: "?rp d1 = (r1, t1)" by (cases "?rp d1")
        obtain r2 t2 where rp2: "?rp d2 = (r2, t2)" by (cases "?rp d2")
        have "without_console (logger_log d1 ?msg tr) = without_console (logger_log d2 ?msg tr)"
          by simp
        from requestProof_debug
               [OF this, where srv = srv and config = config and ?d1.0 = d1 and ?d2.0 = d2
                  and cid = "chain_id c" and bn = "BigInt (blockNumber rc)"
                  and txi = "transactionIndex rc" and lli = lli] rp1 rp2
        have rel: "r2 = r1" "without_console t2 = without_console t1"
          by (simp_all add: observable_eq_iff)
        show ?thesis
        proof (cases r1)
          case (Inl e)
          with rc c cid Inr rp1 rp2 rel show ?thesis
            by (simp add: polymerProof_def observable_def)
        next
          case jid: (Inr jid)
          let ?m2 = "[LStr ''Proof job created with ID:'', LStr jid]"
          show ?thesis
          proof (cases "case returnJob options of None \<Rightarrow> False | Some b \<Rightarrow> b")
            case True
            with rc c cid Inr rp1 rp2 rel jid show ?thesis
              by (simp add: polymerProof_def observable_def)
          next
            case False
            from rel have "without_console (logger_log d1 ?m2 t1) =
                           without_console (logger_log d2 ?m2 t2)" by simp
            let ?maxA = "case maxAttempts_opt options of
                           None \<Rightarrow> maxAttempts config | Some n \<Rightarrow> Some n"
            let ?ival = "case interval_opt options of
                           None \<Rightarrow> interval config | Some n \<Rightarrow> Some n"
            let ?w = "\<lambda>d t. wait srv (config\<lparr>debug := d\<rparr>) jid ?maxA ?ival
                              (logger_log d ?m2 t)"
            have w: "map_option observable (?w d1 t1) = map_option observable (?w d2 t2)"
              using \<open>without_console (logger_log d1 ?m2 t1) =
                     without_console (logger_log d2 ?m2 t2)\<close>
              by (rule wait_debug)
            from rc c cid Inr rp1 jid False
            have p1: "polymerProof keccak srv (config\<lparr>debug := d1\<rparr>) client options tr =
                      map_option (map_prod (map_sum id Status) id) (?w d1 t1)"
              by (simp add: polymerProof_def cong: option.case_cong)
            from rc c cid Inr rp2 rel jid False
            have p2: "polymerProof keccak srv (config\<lparr>debug := d2\<rparr>) client options tr =
                      map_option (map_prod (map_sum id Status) id) (?w d2 t2)"
              by (simp add: polymerProof_def cong: option.case_cong)
            show ?thesis
              unfolding p1 p2 observable_map_prod w ..
          qed
        qed
      qed
    qed
  qed
qed

text \<open>
  C8. Take two configurations that differ in the debug flag only, the same service and
  the same inputs. Then each operation (\<open>polymerProof\<close>, \<open>requestProof\<close>,
  \<open>queryProofStatus\<close>, \<open>wait\<close>, and the three methods of \<open>client.polymer\<close>)
  returns the same value or raises the same error under both, after the same requests and
  the same delays; if one run does not return, neither does the other.
\<close>

theorem debug_flag_is_unobservable:
  "map_option observable
     (polymerProof keccak srv (config\<lparr>debug := d\<rparr>) client options tr) =
   map_option observable
     (polymerProof keccak srv (config\<lparr>debug := d'\<rparr>) client options tr)
   \<and> observable (requestProof srv (config\<lparr>debug := d\<rparr>) cid bn txi lli tr) =
     observable (requestProof srv (config\<lparr>debug := d'\<rparr>) cid bn txi lli tr)
   \<and> observable (queryProofStatus srv (config\<lparr>debug := d\<rparr>) jid tr) =
     observable (queryProofStatus srv (config\<lparr>debug := d'\<rparr>) jid tr)
   \<and> map_option observable (wait srv (config\<lparr>debug := d\<rparr>) jid maxA ival tr) =
     map_option observable (wait srv (config\<lparr>debug := d'\<rparr>) jid maxA ival tr)
   \<and> observable (polymer_requestProof srv (config\<lparr>debug := d\<rparr>) ps tr) =
     observable (polymer_requestProof srv (config\<lparr>debug := d'\<rparr>) ps tr)
   \<and> observable (polymer_queryProofStatus srv (config\<lparr>debug := d\<rparr>) jid tr) =
     observable (polymer_queryProofStatus srv (config\<lparr>debug := d'\<rparr>) jid tr)
   \<and> map_option observable
       (polymer_wait srv (config\<lparr>debug := d\<rparr>) jid maxA' ival' tr) =
     map_option observable
       (polymer_wait srv (config\<lparr>debug := d'\<rparr>) jid maxA' ival' tr)"
  by (intro conjI polymerProof_debug requestProof_debug queryProofStatus_debug wait_debug
        polymer_requestProof_debug polymer_queryProofStatus_debug polymer_wait_debug refl)

text \<open>With logging on, the sample job is polled exactly as with logging off.\<close>

theorem debug_flag_is_unobservable_witness:
  "map_option observable
     (wait completing_service (sample_config\<lparr>debug := Some True\<rparr>) ''job-1'' (Some (Fin 5))
        (Some (Fin 3000)) []) =
   Some (Inr (job_status Complete),
         [query_post sample_config ''job-1'', SetTimeout (Some (Fin 3000)),
          query_post sample_config ''job-1'', SetTimeout (Some (Fin 3000)),
          query_post sample_config ''job-1''])"
proof -
  have y: "yields completing_service (round_trips [])
             ([job_status Pending, job_status Pending] @ [job_status Complete])"
    and ip: "list_all in_progress [job_status Pending, job_status Pending]"
    and st: "status (job_status Complete) = Complete"
    and le: "js_le (Fin (of_nat (Suc (length [job_status Pending, job_status Pending]))))
               (ToNumber (Some (Fin 5)))"
    by (simp_all add: sample_defs)
  from wait_complete_after
         [OF y ip st le, of "sample_config\<lparr>debug := Some False\<rparr>" "''job-1''" "Some (Fin 3000)"]
  have "map_option observable
          (wait completing_service (sample_config\<lparr>debug := Some False\<rparr>) ''job-1'' (Some (Fin 5))
             (Some (Fin 3000)) []) =
        Some (Inr (job_status Complete),
              [query_post sample_config ''job-1'', SetTimeout (Some (Fin 3000)),
               query_post sample_config ''job-1'', SetTimeout (Some (Fin 3000)),
               query_post sample_config ''job-1''])"
    by (simp add: without_console_def query_post_def)
  with debug_flag_is_unobservable
         [where srv = completing_service and config = sample_config and d = "Some True" and d' = "Some False"
            and jid = "''job-1''" and maxA = "Some (Fin 5)" and ival = "Some (Fin 3000)" and tr = "[]",
          THEN conjunct2, THEN conjunct2, THEN conjunct2, THEN conjunct1]
  show ?thesis by simp
qed

section \<open>The submitted log position\<close>

text \<open>
  Unless \<open>maxAttempts\<close> is \<open>Infinity\<close> the loop of the model returns: its counter passes
  every other bound, and a bound that is \<open>NaN\<close>, \<open>undefined\<close> or \<open>-Infinity\<close> is
  passed at once.
\<close>

lemma js_le_bound:
  assumes "m \<noteq> PosInf"
  shows "\<exists>B. \<forall>a\<ge>B. \<not> js_le (Fin (of_nat a)) m"
proof (cases m)
  case (Fin r)
  have "\<not> js_le (Fin (of_nat a)) (Fin r)" if "nat \<lceil>r\<rceil> + 1 \<le> a" for a
  proof -
    have "r \<le> of_int \<lceil>r\<rceil>" by (rule le_of_int_ceiling)
    also have "\<dots> \<le> of_nat (nat \<lceil>r\<rceil>)"
      by (metis of_int_le_iff of_int_of_nat_eq int_nat_eq linorder_le_cases order_refl
            of_nat_0_le_iff)
    also from that have "\<dots> < of_nat a" by simp
    finally show ?thesis by (simp add: js_le_def)
  qed
  with Fin show ?thesis by blast
qed (use assms in \<open>simp_all add: js_le_def\<close>)

lemma wait_loop_returns:
  assumes "ToNumber maxA \<noteq> PosInf"
  shows "\<exists>y. wait_loop srv config jid maxA ival a tr = Some y"
proof -
  from js_le_bound [OF assms] obtain B where
    B: "\<And>a. B \<le> a \<Longrightarrow> \<not> js_le (Fin (of_nat a)) (ToNumber maxA)" by blast
  have "\<exists>y. wait_loop srv config jid maxA ival a tr = Some y" if "B - a = k" for k a tr
    using that
  proof (induction k arbitrary: a tr)
    case 0
    then have "B \<le> a" by simp
    then show ?case by (simp add: wait_loop_exhausted B)
  next
    case (Suc k)
    show ?case
    proof (cases "js_le (Fin (of_nat a)) (ToNumber maxA)")
      case False
      then show ?thesis by (simp add: wait_loop_exhausted)
    next
      case le: True
      let ?tr0 = "logger_log (debug config)
                    [LTemplate [LStr ''Polling attempt '', LNum (Fin (of_nat a)),
                                LStr ''/'', lnum maxA]] tr"
      obtain r tr1 where q: "queryProofStatus srv config jid ?tr0 = (r, tr1)"
        by (cases "queryProofStatus srv config jid ?tr0")
      from Suc.prems have k: "B - Suc a = k" by simp
      show ?thesis
      proof (cases r)
        case (Inl e)
        show ?thesis by (subst wait_loop.simps) (simp add: le q Inl)
      next
        case (Inr res)
        show ?thesis
        proof (cases "status res = Complete \<or> status res = Error")
          case True
          then show ?thesis by (subst wait_loop.simps) (auto simp: le q Inr)
        next
          case False
          let ?tr2 = "if js_lt (Fin (of_nat a)) (ToNumber maxA) then
                        logger_log (debug config)
                          [LTemplate [LStr ''Waiting '', lnum ival,
                                      LStr ''ms before next attempt...'']] tr1
                        @ [SetTimeout ival]
                      else tr1"
          from False have "wait_loop srv config jid maxA ival a tr =
                           wait_loop srv config jid maxA ival (Suc a) ?tr2"
            by (subst wait_loop.simps) (simp add: le q Inr)
          with Suc.IH [OF k, of ?tr2] show ?thesis by simp
        qed
      qed
    qed
  qed
  then show ?thesis by blast
qed

lemma wait_returns:
  "ToNumber maxA \<noteq> PosInf \<Longrightarrow> \<exists>y. wait srv config jid maxA ival tr = Some y"
  unfolding wait_def by (rule wait_loop_returns)

lemma without_console_idem [simp]: "without_console (without_console tr) = without_console tr"
  by (simp add: without_console_def)

lemma without_console_proof_request [simp]:
  "without_console [proof_request config c rc lli] = [proof_request config c rc lli]"
  by (simp add: proof_request_def)

lemma debug_update_same [simp]: "config\<lparr>debug := debug config\<rparr> = config"
  by simp

text \<open>
  Once the log position is resolved, \<open>polymerProof\<close> is observed to do what
  \<open>request_and_wait\<close> says.
\<close>

lemma polymerProof_at_position:
  assumes rc: "receipt options = Some rc"
    and c: "chain client = Some c"
    and cid: "truthy_number (chain_id c)"
    and lli: "localLogIndex keccak rc (eventSignature options) (logIndex options) = Inr lli"
  shows "map_option observable (polymerProof keccak srv config client options tr) =
           request_and_wait srv config c rc options lli tr"
proof -
  let ?tr0 = "logger_log (debug config)
                [LStr ''Transaction receipt details:'',
                 LObj [(''srcChainId'', LNum (chain_id c)),
                       (''srcBlockNumber'', LBig (blockNumber rc)),
                       (''txIndex'', LNum (transactionIndex rc)),
                       (''localLogIndex'', lnum lli),
                       (''transactionHash'', LStr (transactionHash rc))]] tr"
  let ?sent = "without_console tr @ [proof_request config c rc lli]"
  obtain rr tr1 where
    rp: "requestProof srv config (chain_id c) (BigInt (blockNumber rc))
           (transactionIndex rc) lli ?tr0 = (rr, tr1)"
    by (cases "requestProof srv config (chain_id c) (BigInt (blockNumber rc))
                 (transactionIndex rc) lli ?tr0")
  from requestProof_effect
         [of srv config "chain_id c" "BigInt (blockNumber rc)" "transactionIndex rc" lli ?tr0] rp
  have tr1: "without_console tr1 = ?sent"
    by (simp add: proof_request_def)
  have "without_console ?tr0 = without_console tr" by simp
  from requestProof_debug
         [OF this, where srv = srv and config = config and ?d1.0 = "debug config"
            and ?d2.0 = "debug config" and cid = "chain_id c"
            and bn = "BigInt (blockNumber rc)" and txi = "transactionIndex rc" and lli = lli] rp
  have rr: "fst (requestProof srv config (chain_id c) (BigInt (blockNumber rc))
                   (transactionIndex rc) lli tr) = rr"
    by (simp add: observable_eq_iff)
  show ?thesis
  proof (cases rr)
    case (Inl e)
    with rc c cid lli rp rr tr1 show ?thesis
      by (simp add: polymerProof_def request_and_wait_def observable_def)
  next
    case jid: (Inr jid)
    let ?m2 = "[LStr ''Proof job created with ID:'', LStr jid]"
    show ?thesis
    proof (cases "case returnJob options of None \<Rightarrow> False | Some b \<Rightarrow> b")
      case True
      with rc c cid lli rp rr tr1 jid show ?thesis
        by (simp add: polymerProof_def request_and_wait_def observable_def)
    next
      case False
      let ?maxA = "case maxAttempts_opt options of
                     None \<Rightarrow> maxAttempts config | Some m \<Rightarrow> Some m"
      let ?ival = "case interval_opt options of
                     None \<Rightarrow> interval config | Some i \<Rightarrow> Some i"
      from tr1 have "without_console (logger_log (debug config) ?m2 tr1) = without_console ?sent"
        by simp
      from wait_debug
             [OF this, where srv = srv and config = config and ?d1.0 = "debug config"
                and ?d2.0 = "debug config" and jid = jid and maxA = ?maxA and ival = ?ival]
      have w: "map_option observable
                 (wait srv config jid ?maxA ?ival (logger_log (debug config) ?m2 tr1)) =
               map_option observable (wait srv config jid ?maxA ?ival ?sent)"
        by simp
      from rc c cid lli rp jid False
      have p: "polymerProof keccak srv config client options tr =
               map_option (map_prod (map_sum id Status) id)
                 (wait srv config jid ?maxA ?ival (logger_log (debug config) ?m2 tr1))"
        by (simp add: polymerProof_def cong: option.case_cong)
      from rr jid False
      have r: "request_and_wait srv config c rc options lli tr =
               map_option (map_prod (map_sum id Status) id)
                 (map_option observable (wait srv config jid ?maxA ?ival ?sent))"
        by (simp add: request_and_wait_def cong: option.case_cong)
      show ?thesis unfolding p r observable_map_prod w ..
    qed
  qed
qed

text \<open>A bounded call returns, and it has posted the proof request first.\<close>

lemma polymerProof_returns:
  assumes rc: "receipt options = Some rc"
    and c: "chain client = Some c"
    and cid: "truthy_number (chain_id c)"
    and lli: "localLogIndex keccak rc (eventSignature options) (logIndex options) = Inr lli"
    and b: "bounded config options"
  shows "\<exists>r tr' rest. polymerProof keccak srv config client options tr = Some (r, tr')
           \<and> without_console tr' = without_console tr @ proof_request config c rc lli # rest"
proof -
  let ?tr0 = "logger_log (debug config)
                [LStr ''Transaction receipt details:'',
                 LObj [(''srcChainId'', LNum (chain_id c)),
                       (''srcBlockNumber'', LBig (blockNumber rc)),
                       (''txIndex'', LNum (transactionIndex rc)),
                       (''localLogIndex'', lnum lli),
                       (''transactionHash'', LStr (transactionHash rc))]] tr"
  obtain rr tr1 where
    rp: "requestProof srv config (chain_id c) (BigInt (blockNumber rc))
           (transactionIndex rc) lli ?tr0 = (rr, tr1)"
    by (cases "requestProof srv config (chain_id c) (BigInt (blockNumber rc))
                 (transactionIndex rc) lli ?tr0")
  have "\<exists>y. polymerProof keccak srv config client options tr = Some y"
  proof (cases rr)
    case (Inl e)
    with rc c cid lli rp show ?thesis by (simp add: polymerProof_def)
  next
    case jid: (Inr jid)
    show ?thesis
    proof (cases "case returnJob options of None \<Rightarrow> False | Some b \<Rightarrow> b")
      case True
      with rc c cid lli rp jid show ?thesis by (simp add: polymerProof_def)
    next
      case False
      with b have "ToNumber (case maxAttempts_opt options of
                               None \<Rightarrow> maxAttempts config | Some m \<Rightarrow> Some m) \<noteq> PosInf"
        by (auto simp: bounded_def js_le_def)
      from wait_returns [OF this]
      obtain y where
        "wait srv config jid
           (case maxAttempts_opt options of None \<Rightarrow> maxAttempts config | Some m \<Rightarrow> Some m)
           (case interval_opt options of None \<Rightarrow> interval config | Some i \<Rightarrow> Some i)
           (logger_log (debug config) [LStr ''Proof job created with ID:'', LStr jid] tr1) =
         Some y"
        by blast
      with rc c cid lli rp jid False show ?thesis
        by (simp add: polymerProof_def cong: option.case_cong)
    qed
  qed
  then obtain r tr' where run: "polymerProof keccak srv config client options tr = Some (r, tr')"
    by auto
  from polymerProof_submits [OF rc c cid lli run] run show ?thesis by blast
qed

lemma round_trips_proof_request [simp]: "round_trips [proof_request config c rc lli] = 1"
  by (simp add: round_trips_def proof_request_def request_post_def)

lemma not_safe_integer_half [simp]: "\<not> safe_integer (3 / 2)"
proof -
  have "\<lfloor>3 / 2 :: rat\<rfloor> = 1" by (rule floor_unique) simp_all
  then show ?thesis by (simp add: safe_integer_def)
qed

text \<open>The sample call in job-only mode, for any position it resolves to.\<close>

lemma sample_job_only:
  assumes "localLogIndex sample_hash sample_receipt sig idx = Inr lli"
  shows "map_option observable
           (polymerProof sample_hash completing_service sample_config sample_client
              (job_only sig idx) []) =
         Some (Inr (Job \<lparr>jobId = ''job-1'', receipt_of_job = Some sample_receipt\<rparr>),
               [request_post sample_config
                  [JNumber 11155420, JNumber 12345, JNumber 7, json_of_param lli]])"
proof -
  have "map_option observable
          (polymerProof sample_hash completing_service sample_config sample_client
             (job_only sig idx) []) =
        Some (Inr (Job \<lparr>jobId = ''job-1'', receipt_of_job = Some sample_receipt\<rparr>),
              without_console []
                @ [proof_request sample_config \<lparr>chain_id = Fin 11155420\<rparr> sample_receipt lli])"
    using assms
    by (intro polymerProof_job_only)
       (simp_all add: sample_client_def job_only_def completing_service_def
          scripted_def success_def response_ok_def round_trips_def)
  then show ?thesis
    by (simp add: proof_request_def without_console_def sample_receipt_def
          Number_of_bigint_safe)
qed

text \<open>The sample call when it polls, for any position it resolves to.\<close>

lemma sample_request_and_wait:
  "request_and_wait completing_service sample_config \<lparr>chain_id = Fin 11155420\<rparr> sample_receipt
     (polling sig idx) lli [] =
   Some (Inr (Status (job_status Complete)),
         [request_post sample_config
            [JNumber 11155420, JNumber 12345, JNumber 7, json_of_param lli],
          query_post sample_config ''job-1'', SetTimeout (Some (Fin 3000)),
          query_post sample_config ''job-1''])"
proof -
  let ?c = "\<lparr>chain_id = Fin 11155420\<rparr>"
  let ?sent = "[proof_request sample_config ?c sample_receipt lli]"
  have "delivered (requestProof_reply completing_service (round_trips [])) = Some ''job-1''"
    by (simp add: completing_service_def scripted_def success_def response_ok_def
          round_trips_Nil)
  then have rp: "fst (requestProof completing_service sample_config (chain_id ?c)
                        (BigInt (blockNumber sample_receipt))
                        (transactionIndex sample_receipt) lli []) = Inr ''job-1''"
    by (rule requestProof_delivered)
  have y: "yields completing_service (round_trips ?sent)
             ([job_status Pending] @ [job_status Complete])"
    by (simp add: completing_service_def scripted_def success_def response_ok_def)
  have ip: "list_all in_progress [job_status Pending]"
    by (simp add: in_progress_def job_status_def)
  have st: "status (job_status Complete) = Complete" by (simp add: job_status_def)
  have le: "js_le (Fin (of_nat (Suc (length [job_status Pending])))) (ToNumber (Some (Fin 20)))"
    by (simp add: js_le_def)
  from wait_complete_after [OF y ip st le, of sample_config "''job-1''" "Some (Fin 3000)"]
  have w: "map_option observable
             (wait completing_service sample_config ''job-1'' (Some (Fin 20)) (Some (Fin 3000))
                ?sent) =
           Some (Inr (job_status Complete),
                 ?sent @ [query_post sample_config ''job-1'', SetTimeout (Some (Fin 3000)),
                          query_post sample_config ''job-1''])"
    by simp
  have cfg: "maxAttempts sample_config = Some (Fin 20)" "interval sample_config = Some (Fin 3000)"
    by (simp_all add: sample_config_def DEFAULT_CONFIG_def)
  have sent: "proof_request sample_config ?c sample_receipt lli =
              request_post sample_config
                [JNumber 11155420, JNumber 12345, JNumber 7, json_of_param lli]"
    by (simp add: proof_request_def sample_receipt_def Number_of_bigint_safe)
  show ?thesis
    unfolding request_and_wait_def Let_def rp
    by (simp add: polling_def cfg w without_console_Nil) (simp add: sent)
qed

text \<open>
  C5, amended. Let \<open>polymerProof\<close> be called with a receipt, on a client with a chain.
  A \<open>logIndex\<close> that is negative makes the call fail with "logIndex must be
  non-negative" before anything is sent. Any other \<open>logIndex\<close> is the position resolved,
  unchanged: there is no test for a whole number. The call is then observed to do what
  \<open>request_and_wait\<close> says for that position, whether it returns or not: it posts the
  proof request with the position as its fourth coordinate, and goes on from there. A
  bounded call does return, and that request is the first thing it has done to the outside.
  In the request a safe integer is written as it is, any other finite position as its
  shortest decimal, and \<open>NaN\<close> and \<open>Infinity\<close>, which also pass the test, as
  \<open>null\<close>. With no \<open>logIndex\<close> and no (or an empty) event signature the call fails with
  "eventSignature or logIndex is required".
\<close>

theorem logIndex_used_unless_negative:
  assumes "receipt options = Some rc"
    and "chain client = Some c"
    and "truthy_number (chain_id c)"
  shows "(\<forall>n. logIndex options = Some n \<and> js_lt n (Fin 0) \<longrightarrow>
            polymerProof keccak srv polymerConfig client options tr =
              Some (Inl NegativeLogIndex, tr))
       \<and> (\<forall>n. logIndex options = Some n \<and> \<not> js_lt n (Fin 0) \<longrightarrow>
            localLogIndex keccak rc (eventSignature options) (logIndex options) = Inr (Some n)
          \<and> map_option observable (polymerProof keccak srv polymerConfig client options tr) =
              request_and_wait srv polymerConfig c rc options (Some n) tr
          \<and> (bounded polymerConfig options \<longrightarrow>
               (\<exists>r tr' rest.
                  polymerProof keccak srv polymerConfig client options tr = Some (r, tr')
                \<and> without_console tr' =
                    without_console tr @ proof_request polymerConfig c rc (Some n) # rest))
          \<and> proof_request polymerConfig c rc (Some n) =
              request_post polymerConfig
                [json_of_number (chain_id c),
                 json_of_number (Number_of_bigint (blockNumber rc)),
                 json_of_number (transactionIndex rc),
                 (case n of
                    Fin r \<Rightarrow> if safe_integer r then JNumber r else JDouble r
                  | NaN \<Rightarrow> JNull | PosInf \<Rightarrow> JNull | NegInf \<Rightarrow> JNull)])
       \<and> (logIndex options = None
            \<and> (eventSignature options = None \<or> eventSignature options = Some []) \<longrightarrow>
            polymerProof keccak srv polymerConfig client options tr =
              Some (Inl SelectorRequired, tr))"
proof (intro conjI impI allI)
  fix n
  assume "logIndex options = Some n \<and> js_lt n (Fin 0)"
  then have "localLogIndex keccak rc (eventSignature options) (logIndex options) =
             Inl NegativeLogIndex"
    by (simp add: localLogIndex_explicit)
  with assms show "polymerProof keccak srv polymerConfig client options tr =
                     Some (Inl NegativeLogIndex, tr)"
    by (rule polymerProof_resolution_fails)
next
  fix n
  assume n: "logIndex options = Some n \<and> \<not> js_lt n (Fin 0)"
  then show res: "localLogIndex keccak rc (eventSignature options) (logIndex options) =
                  Inr (Some n)"
    by (simp add: localLogIndex_explicit)
  from assms res
  show "map_option observable (polymerProof keccak srv polymerConfig client options tr) =
          request_and_wait srv polymerConfig c rc options (Some n) tr"
    by (rule polymerProof_at_position)
  show "proof_request polymerConfig c rc (Some n) =
          request_post polymerConfig
            [json_of_number (chain_id c),
             json_of_number (Number_of_bigint (blockNumber rc)),
             json_of_number (transactionIndex rc),
             (case n of
                Fin r \<Rightarrow> if safe_integer r then JNumber r else JDouble r
              | NaN \<Rightarrow> JNull | PosInf \<Rightarrow> JNull | NegInf \<Rightarrow> JNull)]"
    by (cases n) (simp_all add: proof_request_def)
  assume "bounded polymerConfig options"
  with assms res
  show "\<exists>r tr' rest.
          polymerProof keccak srv polymerConfig client options tr = Some (r, tr')
        \<and> without_console tr' =
            without_console tr @ proof_request polymerConfig c rc (Some n) # rest"
    by (rule polymerProof_returns)
next
  assume "logIndex options = None
          \<and> (eventSignature options = None \<or> eventSignature options = Some [])"
  then have "localLogIndex keccak rc (eventSignature options) (logIndex options) =
             Inl SelectorRequired"
    by (auto simp: localLogIndex_neither)
  with assms show "polymerProof keccak srv polymerConfig client options tr =
                     Some (Inl SelectorRequired, tr)"
    by (rule polymerProof_resolution_fails)
qed

text \<open>
  Position 3 is submitted as 3, and the call then polls the job until it is complete;
  position -1 and a call without selectors are refused.
\<close>

theorem logIndex_used_unless_negative_witness:
  "localLogIndex sample_hash sample_receipt None (Some (Fin 3)) = Inr (Some (Fin 3))
   \<and> bounded sample_config (polling None (Some (Fin 3)))
   \<and> map_option observable
         (polymerProof sample_hash completing_service sample_config sample_client
            (polling None (Some (Fin 3))) []) =
       Some (Inr (Status (job_status Complete)),
             [request_post sample_config
                [JNumber 11155420, JNumber 12345, JNumber 7, JNumber 3],
              query_post sample_config ''job-1'', SetTimeout (Some (Fin 3000)),
              query_post sample_config ''job-1''])
   \<and> polymerProof sample_hash completing_service sample_config sample_client
         (polling None (Some (Fin (- 1)))) [] = Some (Inl NegativeLogIndex, [])
   \<and> polymerProof sample_hash completing_service sample_config sample_client
         (polling None None) [] = Some (Inl SelectorRequired, [])"
proof -
  let ?c = "\<lparr>chain_id = Fin 11155420\<rparr>"
  have pre: "receipt (polling sig idx) = Some sample_receipt"
    "chain sample_client = Some ?c" "truthy_number (chain_id ?c)" for sig idx
    by (simp_all add: polling_def sample_client_def)
  note inst = logIndex_used_unless_negative
               [OF pre, of _ _ sample_hash completing_service sample_config "[]"]
  have three: "logIndex (polling None (Some (Fin 3))) = Some (Fin 3) \<and> \<not> js_lt (Fin 3) (Fin 0)"
    by (simp add: polling_def)
  from inst [of None "Some (Fin 3)", THEN conjunct2, THEN conjunct1, THEN spec, THEN mp,
             OF three]
  have idx: "localLogIndex sample_hash sample_receipt None (Some (Fin 3)) = Inr (Some (Fin 3))"
    and run: "map_option observable
                (polymerProof sample_hash completing_service sample_config sample_client
                   (polling None (Some (Fin 3))) []) =
              request_and_wait completing_service sample_config ?c sample_receipt
                (polling None (Some (Fin 3))) (Some (Fin 3)) []"
    by (simp_all add: polling_def)
  from inst [of None "Some (Fin (- 1))", THEN conjunct1, THEN spec, of "Fin (- 1)"]
  have neg: "polymerProof sample_hash completing_service sample_config sample_client
               (polling None (Some (Fin (- 1)))) [] = Some (Inl NegativeLogIndex, [])"
    by (simp add: polling_def)
  from inst [of None None, THEN conjunct2, THEN conjunct2]
  have neither: "polymerProof sample_hash completing_service sample_config sample_client
                   (polling None None) [] = Some (Inl SelectorRequired, [])"
    by (simp add: polling_def)
  have "bounded sample_config (polling None (Some (Fin 3)))"
    by (simp add: bounded_def polling_def sample_config_def DEFAULT_CONFIG_def js_le_def)
  with idx run neg neither show ?thesis
    by (simp add: sample_request_and_wait)
qed

text \<open>
  The statement of C5 fails where it promises an error for a \<open>logIndex\<close> that is not
  a whole number: the position 3/2 passes the only test there is, which is for a negative
  value, and is submitted. So does \<open>NaN\<close>, which is submitted as \<open>null\<close>.
\<close>

theorem fractional_logIndex_accepted:
  "localLogIndex sample_hash sample_receipt None (Some (Fin (3 / 2))) = Inr (Some (Fin (3 / 2)))
   \<and> map_option observable
         (polymerProof sample_hash completing_service sample_config sample_client
            (job_only None (Some (Fin (3 / 2)))) []) =
       Some (Inr (Job \<lparr>jobId = ''job-1'', receipt_of_job = Some sample_receipt\<rparr>),
             [request_post sample_config
                [JNumber 11155420, JNumber 12345, JNumber 7, JDouble (3 / 2)]])
   \<and> localLogIndex sample_hash sample_receipt None (Some NaN) = Inr (Some NaN)
   \<and> map_option observable
         (polymerProof sample_hash completing_service sample_config sample_client
            (job_only None (Some NaN)) []) =
       Some (Inr (Job \<lparr>jobId = ''job-1'', receipt_of_job = Some sample_receipt\<rparr>),
             [request_post sample_config [JNumber 11155420, JNumber 12345, JNumber 7, JNull]])"
proof -
  have idx: "localLogIndex sample_hash sample_receipt None (Some (Fin (3 / 2))) =
             Inr (Some (Fin (3 / 2)))"
    by (simp add: localLogIndex_explicit)
  have nan: "localLogIndex sample_hash sample_receipt None (Some NaN) = Inr (Some NaN)"
    by (simp add: localLogIndex_explicit)
  from sample_job_only [OF idx] sample_job_only [OF nan] idx nan show ?thesis by simp
qed

text \<open>
  C9, amended. When \<open>logIndex\<close> is a number, \<open>polymerProof\<close> does the same whatever the
  hash function and whatever the event signature (given or not): the signature is not
  hashed. The position resolved depends on \<open>logIndex\<close> alone, not on the receipt: the
  logs are not scanned. The call never fails with "Event ... not found in transaction
  receipt". Given a receipt and a chain, a \<open>logIndex\<close> that is not negative is the
  position the call goes on with: it is observed to do what \<open>request_and_wait\<close> says for
  that position, whether it returns or not, and a bounded call returns with the proof
  request for that position as the first thing done to the outside. In the request a
  safe integer is written as it is, any other finite position as its shortest decimal, and
  \<open>NaN\<close> and \<open>Infinity\<close> as \<open>null\<close>. A negative \<open>logIndex\<close> is not submitted: the call
  fails with "logIndex must be non-negative" before anything is sent.
\<close>

theorem explicit_logIndex_takes_precedence:
  assumes "logIndex options = Some n"
  shows "polymerProof keccak srv polymerConfig client options tr =
           polymerProof keccak' srv polymerConfig client (options\<lparr>eventSignature := sig'\<rparr>) tr
       \<and> (\<forall>rc. localLogIndex keccak rc (eventSignature options) (logIndex options) =
                  (if js_lt n (Fin 0) then Inl NegativeLogIndex else Inr (Some n)))
       \<and> (\<forall>s tr'. polymerProof keccak srv polymerConfig client options tr \<noteq>
                     Some (Inl (EventNotFound s), tr'))
       \<and> (\<forall>rc c. receipt options = Some rc \<and> chain client = Some c
                  \<and> truthy_number (chain_id c) \<longrightarrow>
            (if js_lt n (Fin 0)
             then polymerProof keccak srv polymerConfig client options tr =
                    Some (Inl NegativeLogIndex, tr)
             else map_option observable
                    (polymerProof keccak srv polymerConfig client options tr) =
                    request_and_wait srv polymerConfig c rc options (Some n) tr
                \<and> (bounded polymerConfig options \<longrightarrow>
                     (\<exists>r tr' rest.
                        polymerProof keccak srv polymerConfig client options tr = Some (r, tr')
                      \<and> without_console tr' =
                          without_console tr
                            @ proof_request polymerConfig c rc (Some n) # rest))))
       \<and> (\<forall>rc c. proof_request polymerConfig c rc (Some n) =
                    request_post polymerConfig
                      [json_of_number (chain_id c),
                       json_of_number (Number_of_bigint (blockNumber rc)),
                       json_of_number (transactionIndex rc),
                       (case n of
                          Fin r \<Rightarrow> if safe_integer r then JNumber r else JDouble r
                        | NaN \<Rightarrow> JNull | PosInf \<Rightarrow> JNull | NegInf \<Rightarrow> JNull)])"
proof (intro conjI allI impI)
  from assms
  show "polymerProof keccak srv polymerConfig client options tr =
          polymerProof keccak' srv polymerConfig client (options\<lparr>eventSignature := sig'\<rparr>) tr"
    by (intro polymerProof_cong) (simp_all add: localLogIndex_explicit)
next
  fix rc c
  show "proof_request polymerConfig c rc (Some n) =
          request_post polymerConfig
            [json_of_number (chain_id c),
             json_of_number (Number_of_bigint (blockNumber rc)),
             json_of_number (transactionIndex rc),
             (case n of
                Fin r \<Rightarrow> if safe_integer r then JNumber r else JDouble r
              | NaN \<Rightarrow> JNull | PosInf \<Rightarrow> JNull | NegInf \<Rightarrow> JNull)]"
    by (cases n) (simp_all add: proof_request_def)
next
  fix rc
  from assms
  show "localLogIndex keccak rc (eventSignature options) (logIndex options) =
          (if js_lt n (Fin 0) then Inl NegativeLogIndex else Inr (Some n))"
    by (simp add: localLogIndex_explicit)
next
  fix s tr'
  from assms
  show "polymerProof keccak srv polymerConfig client options tr \<noteq>
          Some (Inl (EventNotFound s), tr')"
    by (rule polymerProof_explicit_not_EventNotFound)
next
  fix rc c
  assume pre: "receipt options = Some rc \<and> chain client = Some c \<and> truthy_number (chain_id c)"
  then have rc: "receipt options = Some rc" and c: "chain client = Some c"
    and cid: "truthy_number (chain_id c)"
    by simp_all
  show "if js_lt n (Fin 0)
        then polymerProof keccak srv polymerConfig client options tr =
               Some (Inl NegativeLogIndex, tr)
        else map_option observable
               (polymerProof keccak srv polymerConfig client options tr) =
               request_and_wait srv polymerConfig c rc options (Some n) tr
           \<and> (bounded polymerConfig options \<longrightarrow>
                (\<exists>r tr' rest.
                   polymerProof keccak srv polymerConfig client options tr = Some (r, tr')
                 \<and> without_console tr' =
                     without_console tr @ proof_request polymerConfig c rc (Some n) # rest))"
  proof (cases "js_lt n (Fin 0)")
    case True
    with assms
    have "localLogIndex keccak rc (eventSignature options) (logIndex options) =
          Inl NegativeLogIndex"
      by (simp add: localLogIndex_explicit)
    from polymerProof_resolution_fails [OF rc c cid this] True show ?thesis by simp
  next
    case False
    with assms
    have res: "localLogIndex keccak rc (eventSignature options) (logIndex options) =
               Inr (Some n)"
      by (simp add: localLogIndex_explicit)
    from polymerProof_at_position [OF rc c cid res]
         polymerProof_returns [OF rc c cid res] False
    show ?thesis by simp
  qed
qed

text \<open>
  The sample receipt has no mint event; with \<open>logIndex = 1\<close> next to the mint signature
  the call submits position 1 and polls the job, as it does without a signature and with
  another hash function.
\<close>

theorem explicit_logIndex_takes_precedence_witness:
  "logIndex (polling (Some ''Mint(uint256)'') (Some (Fin 1))) = Some (Fin 1)
   \<and> polymerProof sample_hash completing_service sample_config sample_client
         (polling (Some ''Mint(uint256)'') (Some (Fin 1))) [] =
       polymerProof id completing_service sample_config sample_client
         (polling None (Some (Fin 1))) []
   \<and> localLogIndex sample_hash sample_receipt (Some ''Mint(uint256)'') (Some (Fin 1)) =
       Inr (Some (Fin 1))
   \<and> bounded sample_config (polling (Some ''Mint(uint256)'') (Some (Fin 1)))
   \<and> map_option observable
         (polymerProof sample_hash completing_service sample_config sample_client
            (polling (Some ''Mint(uint256)'') (Some (Fin 1))) []) =
       Some (Inr (Status (job_status Complete)),
             [request_post sample_config
                [JNumber 11155420, JNumber 12345, JNumber 7, JNumber 1],
              query_post sample_config ''job-1'', SetTimeout (Some (Fin 3000)),
              query_post sample_config ''job-1''])"
proof -
  let ?M = "''Mint(uint256)''"
  let ?c = "\<lparr>chain_id = Fin 11155420\<rparr>"
  have pre: "logIndex (polling (Some ?M) (Some (Fin 1))) = Some (Fin 1)"
    by (simp add: polling_def)
  note inst = explicit_logIndex_takes_precedence
                [OF pre, of sample_hash completing_service sample_config sample_client "[]"]
  from inst [of id None, THEN conjunct1]
  have same: "polymerProof sample_hash completing_service sample_config sample_client
                (polling (Some ?M) (Some (Fin 1))) [] =
              polymerProof id completing_service sample_config sample_client
                (polling None (Some (Fin 1))) []"
    by (simp add: polling_def)
  from inst [of id None, THEN conjunct2, THEN conjunct1, THEN spec, of sample_receipt]
  have idx: "localLogIndex sample_hash sample_receipt (Some ?M) (Some (Fin 1)) =
             Inr (Some (Fin 1))"
    by (simp add: polling_def)
  have given: "receipt (polling (Some ?M) (Some (Fin 1))) = Some sample_receipt
               \<and> chain sample_client = Some ?c \<and> truthy_number (chain_id ?c)"
    by (simp add: polling_def sample_client_def)
  from inst [of id None, THEN conjunct2, THEN conjunct2, THEN conjunct2, THEN conjunct1,
             THEN spec, THEN spec, THEN mp, OF given]
  have run: "map_option observable
               (polymerProof sample_hash completing_service sample_config sample_client
                  (polling (Some ?M) (Some (Fin 1))) []) =
             request_and_wait completing_service sample_config ?c sample_receipt
               (polling (Some ?M) (Some (Fin 1))) (Some (Fin 1)) []"
    by simp
  have "bounded sample_config (polling (Some ?M) (Some (Fin 1)))"
    by (simp add: bounded_def polling_def sample_config_def DEFAULT_CONFIG_def js_le_def)
  with pre same idx run show ?thesis
    by (simp add: sample_request_and_wait)
qed

text \<open>
  The statement of C9 fails for a negative \<open>logIndex\<close>: next to the signature of an
  event that the sample receipt does carry, \<open>logIndex = -1\<close> is not the coordinate
  submitted. The call is refused and nothing is sent.
\<close>

theorem negative_logIndex_is_not_submitted:
  "eventSignature (polling (Some ''Transfer(address,address,uint256)'') (Some (Fin (- 1)))) =
     Some ''Transfer(address,address,uint256)''
   \<and> logIndex (polling (Some ''Transfer(address,address,uint256)'') (Some (Fin (- 1)))) =
       Some (Fin (- 1))
   \<and> polymerProof sample_hash completing_service sample_config sample_client
         (polling (Some ''Transfer(address,address,uint256)'') (Some (Fin (- 1)))) [] =
       Some (Inl NegativeLogIndex, [])"
  by (simp add: polymerProof_def polling_def sample_client_def localLogIndex_explicit)

end
